theory Spec2Isabelle
  imports Main
begin

section \<open>The dependency checker of the CI pipeline\<close>

text \<open>
  A shallow embedding of \<^verbatim>\<open>.github/scripts/check_dependencies.py\<close>. The script runs
  three steps in a row: \<^verbatim>\<open>check_dependency_conflicts\<close>, \<^verbatim>\<open>check_critical_versions\<close>
  and \<^verbatim>\<open>generate_dependency_report\<close>, and exits with status 0 or 1.

  Everything the script does to the outside is explicit here. A computation takes the
  world (what has been printed and which commands have been run so far, and the files on
  disk) and gives back either a raised exception or a value, with the new world. The
  package manager, the version library and the JSON library are not part of the script:
  they are the fields of a \<open>host\<close> record, so that a statement below holds for whatever
  they answer, unless it names one of the two libraries modelled further down.
\<close>

subsection \<open>Exceptions, effects and the world\<close>

text \<open>
  Every fault the script can meet is an instance of Python's \<^verbatim>\<open>Exception\<close>; only its
  message is ever used (\<^verbatim>\<open>{e}\<close> in an f-string). Interrupts that are not of class
  \<^verbatim>\<open>Exception\<close> (a keyboard interrupt) come from outside the sequential run and are not
  modelled; \<^verbatim>\<open>print\<close> is taken to succeed.
\<close>

datatype exn = Exception string

fun str_exn :: "exn \<Rightarrow> string" where
  "str_exn (Exception msg) = msg"

text \<open>The part of \<^verbatim>\<open>subprocess.CompletedProcess\<close> that the script reads.\<close>

record completed =
  returncode :: int
  stdout :: string

datatype event = Print string | Run "string list"

record world =
  trace :: "event list"
  files :: "string \<rightharpoonup> string"

type_synonym 'a py = "world \<Rightarrow> (exn + 'a) \<times> world"

definition return_py :: "'a \<Rightarrow> 'a py" where
  "return_py v = (\<lambda>w. (Inr v, w))"

definition lift_py :: "exn + 'a \<Rightarrow> 'a py" where
  "lift_py r = (\<lambda>w. (r, w))"

definition bind_py :: "'a py \<Rightarrow> ('a \<Rightarrow> 'b py) \<Rightarrow> 'b py" where
  "bind_py m k = (\<lambda>w. case m w of (Inl e, w') \<Rightarrow> (Inl e, w') | (Inr v, w') \<Rightarrow> k v w')"

text \<open>\<^verbatim>\<open>try: body  except Exception as e: handler\<close>. What the body did before it raised stays done.\<close>

definition try_except :: "'a py \<Rightarrow> (exn \<Rightarrow> 'a py) \<Rightarrow> 'a py" where
  "try_except body handler =
     (\<lambda>w. case body w of (Inl e, w') \<Rightarrow> handler e w' | (Inr v, w') \<Rightarrow> (Inr v, w'))"

definition print :: "string \<Rightarrow> unit py" where
  "print s = (\<lambda>w. (Inr (), w\<lparr>trace := trace w @ [Print s]\<rparr>))"

subsection \<open>Python values and string operations\<close>

text \<open>
  What \<^verbatim>\<open>json.loads\<close> can return. The payload of a float plays no part in the script and is
  left as a type parameter.
\<close>

datatype 'f json =
    JNull
  | JBool bool
  | JInt int
  | JFloat 'f
  | JStr string
  | JArr "'f json list"
  | JObj "(string \<times> 'f json) list"

text \<open>\<^verbatim>\<open>len(x)\<close>: defined on lists, dicts and strings, a \<^verbatim>\<open>TypeError\<close> on the rest.\<close>

fun py_len :: "'f json \<Rightarrow> exn + nat" where
  "py_len (JArr xs) = Inr (length xs)"
| "py_len (JObj kvs) = Inr (length kvs)"
| "py_len (JStr s) = Inr (length s)"
| "py_len JNull = Inl (Exception ''object of type 'NoneType' has no len()'')"
| "py_len (JBool b) = Inl (Exception ''object of type 'bool' has no len()'')"
| "py_len (JInt i) = Inl (Exception ''object of type 'int' has no len()'')"
| "py_len (JFloat x) = Inl (Exception ''object of type 'float' has no len()'')"

definition startswith :: "string \<Rightarrow> string \<Rightarrow> bool" where
  "startswith s p = (take (length p) s = p)"

text \<open>\<^verbatim>\<open>s.split(c)\<close> for a one-character separator: never an empty list.\<close>

fun split_on :: "char \<Rightarrow> string \<Rightarrow> string list" where
  "split_on c [] = [[]]"
| "split_on c (x # xs) =
     (if x = c then [] # split_on c xs
      else (case split_on c xs of
              [] \<Rightarrow> [[x]]
            | y # ys \<Rightarrow> (x # y) # ys))"

text \<open>The characters up to U+00FF for which \<^verbatim>\<open>str.isspace\<close> holds.\<close>

definition isspace :: "char \<Rightarrow> bool" where
  "isspace c = (c \<in> set [CHR 0x09, CHR 0x0A, CHR 0x0B, CHR 0x0C, CHR 0x0D,
                          CHR 0x1C, CHR 0x1D, CHR 0x1E, CHR 0x1F, CHR 0x20,
                          CHR 0x85, CHR 0xA0])"

definition strip :: "string \<Rightarrow> string" where
  "strip s = rev (dropWhile isspace (rev (dropWhile isspace s)))"

text \<open>\<^verbatim>\<open>xs[i]\<close> for \<open>i \<ge> 0\<close>: an \<^verbatim>\<open>IndexError\<close> out of range.\<close>

definition py_index :: "'a list \<Rightarrow> nat \<Rightarrow> exn + 'a" where
  "py_index xs i =
     (if i < length xs then Inr (xs ! i) else Inl (Exception ''list index out of range''))"

definition digit_char :: "nat \<Rightarrow> char" where
  "digit_char d = ''0123456789'' ! d"

text \<open>\<^verbatim>\<open>str(n)\<close> for a natural number, as an f-string renders it.\<close>

fun str_nat :: "nat \<Rightarrow> string" where
  "str_nat n = (if n < 10 then [digit_char n] else str_nat (n div 10) @ [digit_char (n mod 10)])"

declare str_nat.simps [simp del]

text \<open>Truthiness of a string; \<^verbatim>\<open>None\<close> is falsy.\<close>

definition truthy :: "string \<Rightarrow> bool" where
  "truthy s = (s \<noteq> [])"

text \<open>\<^verbatim>\<open>{max_ver}\<close> in an f-string.\<close>

fun str_opt :: "string option \<Rightarrow> string" where
  "str_opt None = ''None''"
| "str_opt (Some s) = s"

subsection \<open>The host\<close>

text \<open>
  \<open>run\<close> answers \<^verbatim>\<open>subprocess.run(cmd, capture_output=True, text=True)\<close>: the completed
  process, or the exception raised when the command could not be started.
  \<open>version_parse\<close>, \<open>version_lt\<close> and \<open>version_gt\<close> are \<^verbatim>\<open>packaging.version.parse\<close> and
  the comparisons \<^verbatim>\<open><\<close> and \<^verbatim>\<open>>\<close> of its results. \<open>json_loads\<close> is \<^verbatim>\<open>json.loads\<close> and
  \<open>json_dumps\<close> the text that \<^verbatim>\<open>json.dump(_, f, indent=2)\<close> writes. \<open>open_fault\<close> tells
  whether opening a path for writing raises, and \<open>write_fault\<close> whether writing to it
  raises, and after how many characters.
\<close>

record ('v, 'f) host =
  run :: "string list \<Rightarrow> exn + completed"
  version_parse :: "string \<Rightarrow> exn + 'v"
  version_lt :: "'v \<Rightarrow> 'v \<Rightarrow> bool"
  version_gt :: "'v \<Rightarrow> 'v \<Rightarrow> bool"
  json_loads :: "string \<Rightarrow> exn + 'f json"
  json_dumps :: "'f json \<Rightarrow> string"
  open_fault :: "string \<Rightarrow> exn option"
  write_fault :: "string \<Rightarrow> (nat \<times> exn) option"

definition subprocess_run :: "('v, 'f) host \<Rightarrow> string list \<Rightarrow> completed py" where
  "subprocess_run h cmd = (\<lambda>w. (run h cmd, w\<lparr>trace := trace w @ [Run cmd]\<rparr>))"

text \<open>
  \<^verbatim>\<open>with open(path, 'w') as f: f.write(content)\<close>. Opening truncates the file; a write
  that raises leaves the characters written so far.
\<close>

definition write_file :: "('v, 'f) host \<Rightarrow> string \<Rightarrow> string \<Rightarrow> unit py" where
  "write_file h path content =
     (\<lambda>w. case open_fault h path of
        Some e \<Rightarrow> (Inl e, w)
      | None \<Rightarrow>
          (case write_fault h path of
             Some (n, e) \<Rightarrow> (Inl e, w\<lparr>files := (files w)(path \<mapsto> take n content)\<rparr>)
           | None \<Rightarrow> (Inr (), w\<lparr>files := (files w)(path \<mapsto> content)\<rparr>)))"

subsection \<open>\<^verbatim>\<open>check_dependency_conflicts\<close>\<close>

definition check_dependency_conflicts :: "('v, 'f) host \<Rightarrow> bool py" where
  "check_dependency_conflicts h =
     bind_py (print ''Checking for dependency conflicts...'') (\<lambda>_.
     try_except
       (bind_py (subprocess_run h [''pip'', ''check'']) (\<lambda>result.
          if returncode result = 0 then
            bind_py (print ''No dependency conflicts found'') (\<lambda>_. return_py True)
          else
            bind_py (print ''Dependency conflicts detected:'') (\<lambda>_.
            bind_py (print (stdout result)) (\<lambda>_. return_py False))))
       (\<lambda>e. bind_py (print (''Error checking dependencies: '' @ str_exn e)) (\<lambda>_.
             return_py False)))"

subsection \<open>\<^verbatim>\<open>check_critical_versions\<close>\<close>

definition critical_packages :: "(string \<times> string \<times> string option) list" where
  "critical_packages =
     [(''torch'', ''1.10.0'', None),
      (''numpy'', ''1.21.0'', Some ''1.24.0''),
      (''opencv-python'', ''4.5.0'', None),
      (''pillow'', ''8.0.0'', None)]"

text \<open>\<^verbatim>\<open>version.parse(a) < version.parse(b)\<close> and the same with \<^verbatim>\<open>>\<close>: left operand first.\<close>

definition parsed_lt :: "('v, 'f) host \<Rightarrow> string \<Rightarrow> string \<Rightarrow> bool py" where
  "parsed_lt h a b =
     bind_py (lift_py (version_parse h a)) (\<lambda>x.
     bind_py (lift_py (version_parse h b)) (\<lambda>y. return_py (version_lt h x y)))"

definition parsed_gt :: "('v, 'f) host \<Rightarrow> string \<Rightarrow> string \<Rightarrow> bool py" where
  "parsed_gt h a b =
     bind_py (lift_py (version_parse h a)) (\<lambda>x.
     bind_py (lift_py (version_parse h b)) (\<lambda>y. return_py (version_gt h x y)))"

text \<open>
  The body of \<^verbatim>\<open>if line.startswith('Version:')\<close>, up to the \<^verbatim>\<open>break\<close>. The value is the
  new \<^verbatim>\<open>all_ok\<close>.
\<close>

definition classify_version ::
  "('v, 'f) host \<Rightarrow> string \<Rightarrow> string \<Rightarrow> string option \<Rightarrow> bool \<Rightarrow> string \<Rightarrow> bool py" where
  "classify_version h package min_ver max_ver all_ok line =
     bind_py (lift_py (py_index (split_on CHR '':'' line) 1)) (\<lambda>field.
     let pkg_version = strip field in
     bind_py (if truthy min_ver then parsed_lt h pkg_version min_ver else return_py False)
       (\<lambda>below.
     if below then
       bind_py (print (package @ '': '' @ pkg_version @ '' is below minimum '' @ min_ver))
         (\<lambda>_. return_py False)
     else
       bind_py (case max_ver of
                  None \<Rightarrow> return_py False
                | Some m \<Rightarrow> if truthy m then parsed_gt h pkg_version m else return_py False)
         (\<lambda>above.
       if above then
         bind_py (print (package @ '': '' @ pkg_version @ '' exceeds maximum ''
                           @ str_opt max_ver))
           (\<lambda>_. return_py all_ok)
       else
         bind_py (print (package @ '': '' @ pkg_version @ '' (valid)''))
           (\<lambda>_. return_py all_ok))))"

text \<open>\<^verbatim>\<open>for line in result.stdout.split('\n')\<close>: the first version line decides, then \<^verbatim>\<open>break\<close>.\<close>

fun scan_lines ::
  "('v, 'f) host \<Rightarrow> string \<Rightarrow> string \<Rightarrow> string option \<Rightarrow> bool \<Rightarrow> string list \<Rightarrow> bool py" where
  "scan_lines h package min_ver max_ver all_ok [] = return_py all_ok"
| "scan_lines h package min_ver max_ver all_ok (line # rest) =
     (if startswith line ''Version:''
      then classify_version h package min_ver max_ver all_ok line
      else scan_lines h package min_ver max_ver all_ok rest)"

text \<open>One turn of the loop over the table: the \<^verbatim>\<open>try\<close> block and its handler.\<close>

definition check_package ::
  "('v, 'f) host \<Rightarrow> string \<Rightarrow> string \<Rightarrow> string option \<Rightarrow> bool \<Rightarrow> bool py" where
  "check_package h package min_ver max_ver all_ok =
     try_except
       (bind_py (subprocess_run h [''pip'', ''show'', package]) (\<lambda>result.
          if returncode result \<noteq> 0 then
            bind_py (print (package @ '': NOT INSTALLED'')) (\<lambda>_. return_py False)
          else
            scan_lines h package min_ver max_ver all_ok
              (split_on CHR 0x0A (stdout result))))
       (\<lambda>e. bind_py (print (''Error checking '' @ package @ '': '' @ str_exn e)) (\<lambda>_.
             return_py False))"

fun check_loop ::
  "('v, 'f) host \<Rightarrow> (string \<times> string \<times> string option) list \<Rightarrow> bool \<Rightarrow> bool py" where
  "check_loop h [] all_ok = return_py all_ok"
| "check_loop h ((package, min_ver, max_ver) # rest) all_ok =
     bind_py (check_package h package min_ver max_ver all_ok) (\<lambda>all_ok'.
       check_loop h rest all_ok')"

definition check_critical_versions :: "('v, 'f) host \<Rightarrow> bool py" where
  "check_critical_versions h =
     bind_py (print (CHR 0x0A # ''Checking critical package versions...'')) (\<lambda>_.
       check_loop h critical_packages True)"

subsection \<open>\<^verbatim>\<open>generate_dependency_report\<close>\<close>

definition generate_dependency_report :: "('v, 'f) host \<Rightarrow> unit py" where
  "generate_dependency_report h =
     bind_py (print (CHR 0x0A # ''Generating dependency report...'')) (\<lambda>_.
     try_except
       (bind_py (subprocess_run h [''pip'', ''list'', ''--format=json'']) (\<lambda>result.
        bind_py (lift_py (json_loads h (stdout result))) (\<lambda>packages.
        bind_py (lift_py (py_len packages)) (\<lambda>n.
        bind_py (print (''Total packages installed: '' @ str_nat n)) (\<lambda>_.
        bind_py (write_file h ''dependency_report.json'' (json_dumps h packages)) (\<lambda>_.
        print ''Dependency report saved to dependency_report.json''))))))
       (\<lambda>e. print (''Error generating report: '' @ str_exn e)))"

subsection \<open>The entry point\<close>

text \<open>
  The value of \<open>main\<close> is the argument of \<^verbatim>\<open>sys.exit\<close>, the last statement of either
  branch. \<open>exit_status\<close> is the status of the process: that argument, or 1 when an
  exception reached the top level.
\<close>

definition main :: "('v, 'f) host \<Rightarrow> int py" where
  "main h =
     bind_py (check_dependency_conflicts h) (\<lambda>conflicts_ok.
     bind_py (check_critical_versions h) (\<lambda>versions_ok.
     bind_py (generate_dependency_report h) (\<lambda>_.
     if conflicts_ok \<and> versions_ok then
       bind_py (print (CHR 0x0A # ''All dependency checks passed'')) (\<lambda>_. return_py 0)
     else
       bind_py (print (CHR 0x0A # ''Dependency validation failed'')) (\<lambda>_. return_py 1))))"

fun exit_status :: "(exn + int) \<times> world \<Rightarrow> int" where
  "exit_status (Inr code, w) = code"
| "exit_status (Inl e, w) = 1"

subsection \<open>What a host reports about a package\<close>

text \<open>
  The notions the statements below are about, read off the code: the version line is the
  first line of the \<^verbatim>\<open>pip show\<close> output that starts with \<^verbatim>\<open>Version:\<close>, and the installed
  version is its second colon-separated field, stripped.
\<close>

definition version_line :: "string \<Rightarrow> string option" where
  "version_line out = find (\<lambda>line. startswith line ''Version:'') (split_on CHR 0x0A out)"

definition reported_version :: "string \<Rightarrow> string option" where
  "reported_version out =
     (case version_line out of
        None \<Rightarrow> None
      | Some line \<Rightarrow>
          (case py_index (split_on CHR '':'' line) 1 of
             Inl e \<Rightarrow> None
           | Inr field \<Rightarrow> Some (strip field)))"

definition installed_version :: "('v, 'f) host \<Rightarrow> string \<Rightarrow> string option" where
  "installed_version h package =
     (case run h [''pip'', ''show'', package] of
        Inl e \<Rightarrow> None
      | Inr result \<Rightarrow> if returncode result = 0 then reported_version (stdout result) else None)"

definition not_installed :: "('v, 'f) host \<Rightarrow> string \<Rightarrow> bool" where
  "not_installed h package =
     (case run h [''pip'', ''show'', package] of
        Inl e \<Rightarrow> False
      | Inr result \<Rightarrow> returncode result \<noteq> 0)"

definition silent :: "('v, 'f) host \<Rightarrow> string \<Rightarrow> bool" where
  "silent h package =
     (case run h [''pip'', ''show'', package] of
        Inl e \<Rightarrow> False
      | Inr result \<Rightarrow> returncode result = 0 \<and> version_line (stdout result) = None)"

text \<open>Both strings parse, and the comparison of the two versions gives \<open>b\<close>.\<close>

definition compares ::
  "('v, 'f) host \<Rightarrow> ('v \<Rightarrow> 'v \<Rightarrow> bool) \<Rightarrow> string \<Rightarrow> string \<Rightarrow> bool \<Rightarrow> bool" where
  "compares h rel a b r =
     (case version_parse h a of
        Inl e \<Rightarrow> False
      | Inr x \<Rightarrow> (case version_parse h b of Inl e \<Rightarrow> False | Inr y \<Rightarrow> rel x y = r))"

definition below_minimum :: "('v, 'f) host \<Rightarrow> string \<Rightarrow> string \<Rightarrow> bool" where
  "below_minimum h v min_ver = compares h (version_lt h) v min_ver True"

definition at_least_minimum :: "('v, 'f) host \<Rightarrow> string \<Rightarrow> string \<Rightarrow> bool" where
  "at_least_minimum h v min_ver = compares h (version_lt h) v min_ver False"

definition above_maximum :: "('v, 'f) host \<Rightarrow> string \<Rightarrow> string \<Rightarrow> bool" where
  "above_maximum h v max_ver = compares h (version_gt h) v max_ver True"

definition at_most_maximum :: "('v, 'f) host \<Rightarrow> string \<Rightarrow> string \<Rightarrow> bool" where
  "at_most_maximum h v max_ver = compares h (version_gt h) v max_ver False"

text \<open>The package is installed at a version that is not below its minimum, and its
  maximum, where there is one, can be compared with it.\<close>

definition meets_minimum ::
  "('v, 'f) host \<Rightarrow> string \<times> string \<times> string option \<Rightarrow> bool" where
  "meets_minimum h entry =
     (case entry of (package, min_ver, max_ver) \<Rightarrow>
        (case installed_version h package of
           None \<Rightarrow> False
         | Some v \<Rightarrow>
             at_least_minimum h v min_ver \<and>
             (case max_ver of
                None \<Rightarrow> True
              | Some m \<Rightarrow> at_most_maximum h v m \<or> above_maximum h v m)))"

text \<open>The same, with the version at or below the maximum as well.\<close>

definition within_bounds ::
  "('v, 'f) host \<Rightarrow> string \<times> string \<times> string option \<Rightarrow> bool" where
  "within_bounds h entry =
     (case entry of (package, min_ver, max_ver) \<Rightarrow>
        (case installed_version h package of
           None \<Rightarrow> False
         | Some v \<Rightarrow>
             at_least_minimum h v min_ver \<and>
             (case max_ver of None \<Rightarrow> True | Some m \<Rightarrow> at_most_maximum h v m)))"

text \<open>
  One turn of the loop, run on its own from the empty world with \<^verbatim>\<open>all_ok\<close> true:
  whether it leaves \<^verbatim>\<open>all_ok\<close> true, and what it prints and runs.
\<close>

definition empty_world :: world where
  "empty_world = \<lparr>trace = [], files = Map.empty\<rparr>"

definition package_passes ::
  "('v, 'f) host \<Rightarrow> string \<times> string \<times> string option \<Rightarrow> bool" where
  "package_passes h entry =
     (case entry of (package, min_ver, max_ver) \<Rightarrow>
        fst (check_package h package min_ver max_ver True empty_world) = Inr True)"

definition package_events ::
  "('v, 'f) host \<Rightarrow> string \<times> string \<times> string option \<Rightarrow> event list" where
  "package_events h entry =
     (case entry of (package, min_ver, max_ver) \<Rightarrow>
        trace (snd (check_package h package min_ver max_ver True empty_world)))"

text \<open>What a computation adds to the trace, and the commands among that.\<close>

definition added :: "world \<Rightarrow> world \<Rightarrow> event list" where
  "added w w' = drop (length (trace w)) (trace w')"

fun commands :: "event list \<Rightarrow> string list list" where
  "commands [] = []"
| "commands (Print s # evs) = commands evs"
| "commands (Run cmd # evs) = cmd # commands evs"

fun printed :: "event list \<Rightarrow> string list" where
  "printed [] = []"
| "printed (Print s # evs) = s # printed evs"
| "printed (Run cmd # evs) = printed evs"

subsection \<open>A version library for release versions\<close>

text \<open>
  Modelled from the spec: \<^verbatim>\<open>packaging.version\<close> is not part of the repository. The spec
  asks for PEP-440-style numeric ordering; this is the part of it for plain release
  versions \<^verbatim>\<open>N(.N)*\<close>: the segments are compared as numbers, from the left, after
  trailing zeros are dropped (\<^verbatim>\<open>1.0\<close> and \<^verbatim>\<open>1.0.0\<close> are the same version). Epochs,
  pre-, post- and development releases and local versions are outside this fragment,
  which rejects them. It is used for the concrete runs below; the general statements
  hold for any version library.
\<close>

definition isdigit :: "char \<Rightarrow> bool" where
  "isdigit c = (c \<in> set ''0123456789'')"

definition digit_value :: "char \<Rightarrow> nat" where
  "digit_value c = of_char c - 48"

definition int_of_digits :: "string \<Rightarrow> nat" where
  "int_of_digits s = foldl (\<lambda>a c. 10 * a + digit_value c) 0 s"

definition drop_trailing_zeros :: "nat list \<Rightarrow> nat list" where
  "drop_trailing_zeros r = rev (dropWhile (\<lambda>n. n = 0) (rev r))"

definition release_parse :: "string \<Rightarrow> exn + nat list" where
  "release_parse s =
     (let parts = split_on CHR ''.'' s in
      if list_all (\<lambda>p. p \<noteq> [] \<and> list_all isdigit p) parts
      then Inr (drop_trailing_zeros (map int_of_digits parts))
      else Inl (Exception (''Invalid version: '' @ [CHR 0x27] @ s @ [CHR 0x27])))"

text \<open>Python's ordering of tuples of numbers.\<close>

fun tuple_lt :: "nat list \<Rightarrow> nat list \<Rightarrow> bool" where
  "tuple_lt [] [] = False"
| "tuple_lt [] (y # ys) = True"
| "tuple_lt (x # xs) [] = False"
| "tuple_lt (x # xs) (y # ys) = (x < y \<or> (x = y \<and> tuple_lt xs ys))"


subsection \<open>A JSON library for a fragment of JSON\<close>

text \<open>
  Modelled from the spec: Python's \<^verbatim>\<open>json\<close> module is not part of the repository. This
  is a reader and a writer for the fragment the report needs: arrays, objects, integers,
  the three literals and strings without escapes. The writer lays the text out as
  \<^verbatim>\<open>indent=2\<close> does. A float is carried as its text and is never produced by the reader.
  It is used for the concrete runs below and for the statement on the report, where the
  reader is proved to read back what the writer writes.
\<close>

definition json_ws :: "char \<Rightarrow> bool" where
  "json_ws c = (c \<in> set [CHR 0x20, CHR 0x09, CHR 0x0A, CHR 0x0D])"

fun read_string :: "string \<Rightarrow> (string \<times> string) option" where
  "read_string [] = None"
| "read_string (c # cs) =
     (if c = CHR 0x22 then Some ([], cs)
      else if c = CHR 0x5C \<or> (of_char c :: nat) < 32 then None
      else map_option (\<lambda>(s, r). (c # s, r)) (read_string cs))"

definition read_number :: "string \<Rightarrow> (string json \<times> string) option" where
  "read_number s =
     (let (neg, t) = (case s of
                        [] \<Rightarrow> (False, s)
                      | c # r \<Rightarrow> if c = CHR ''-'' then (True, r) else (False, s));
          ds = takeWhile isdigit t;
          r = dropWhile isdigit t
      in if ds = [] \<or> (length ds > 1 \<and> hd ds = CHR ''0'') then None
         else if r \<noteq> [] \<and> hd r \<in> set ''.eE'' then None
         else Some (JInt (if neg then - int (int_of_digits ds) else int (int_of_digits ds)), r))"

text \<open>The first argument bounds the depth of the recursion.\<close>

fun read_value :: "nat \<Rightarrow> string \<Rightarrow> (string json \<times> string) option"
and read_items :: "nat \<Rightarrow> string \<Rightarrow> (string json list \<times> string) option"
and read_members :: "nat \<Rightarrow> string \<Rightarrow> ((string \<times> string json) list \<times> string) option" where
  "read_value 0 s = None"
| "read_value (Suc n) s =
     (case dropWhile json_ws s of
        [] \<Rightarrow> None
      | c # r \<Rightarrow>
          if c = CHR ''['' then
            (case dropWhile json_ws r of
               [] \<Rightarrow> None
             | d # r' \<Rightarrow>
                 if d = CHR '']'' then Some (JArr [], r')
                 else map_option (\<lambda>(xs, t). (JArr xs, t)) (read_items n r))
          else if c = CHR ''{'' then
            (case dropWhile json_ws r of
               [] \<Rightarrow> None
             | d # r' \<Rightarrow>
                 if d = CHR ''}'' then Some (JObj [], r')
                 else map_option (\<lambda>(kvs, t). (JObj kvs, t)) (read_members n r))
          else if c = CHR 0x22 then map_option (\<lambda>(x, t). (JStr x, t)) (read_string r)
          else if startswith (c # r) ''true'' then Some (JBool True, drop 4 (c # r))
          else if startswith (c # r) ''false'' then Some (JBool False, drop 5 (c # r))
          else if startswith (c # r) ''null'' then Some (JNull, drop 4 (c # r))
          else read_number (c # r))"
| "read_items 0 s = None"
| "read_items (Suc n) s =
     (case read_value n s of
        None \<Rightarrow> None
      | Some (v, r) \<Rightarrow>
          (case dropWhile json_ws r of
             [] \<Rightarrow> None
           | c # r' \<Rightarrow>
               if c = CHR '','' then map_option (\<lambda>(vs, t). (v # vs, t)) (read_items n r')
               else if c = CHR '']'' then Some ([v], r')
               else None))"
| "read_members 0 s = None"
| "read_members (Suc n) s =
     (case dropWhile json_ws s of
        [] \<Rightarrow> None
      | c # r \<Rightarrow>
          if c \<noteq> CHR 0x22 then None
          else
            (case read_string r of
               None \<Rightarrow> None
             | Some (k, r1) \<Rightarrow>
                 (case dropWhile json_ws r1 of
                    [] \<Rightarrow> None
                  | d # r2 \<Rightarrow>
                      if d \<noteq> CHR '':'' then None
                      else
                        (case read_value n r2 of
                           None \<Rightarrow> None
                         | Some (v, r3) \<Rightarrow>
                             (case dropWhile json_ws r3 of
                                [] \<Rightarrow> None
                              | e # r4 \<Rightarrow>
                                  if e = CHR '','' then
                                    map_option (\<lambda>(kvs, t). ((k, v) # kvs, t))
                                      (read_members n r4)
                                  else if e = CHR ''}'' then Some ([(k, v)], r4)
                                  else None)))))"

definition fragment_loads :: "string \<Rightarrow> exn + string json" where
  "fragment_loads s =
     (case read_value (2 * length s + 2) s of
        None \<Rightarrow> Inl (Exception ''Expecting value'')
      | Some (v, r) \<Rightarrow>
          if dropWhile json_ws r = [] then Inr v else Inl (Exception ''Extra data''))"

definition quote :: "string \<Rightarrow> string" where
  "quote s = [CHR 0x22] @ s @ [CHR 0x22]"

fun join :: "string \<Rightarrow> string list \<Rightarrow> string" where
  "join sep [] = []"
| "join sep [x] = x"
| "join sep (x # y # ys) = x @ sep @ join sep (y # ys)"

definition newline_indent :: "nat \<Rightarrow> string" where
  "newline_indent level = CHR 0x0A # replicate (2 * level) CHR 0x20"

definition str_int :: "int \<Rightarrow> string" where
  "str_int i = (if i < 0 then CHR ''-'' # str_nat (nat (- i)) else str_nat (nat i))"

fun fragment_dump :: "nat \<Rightarrow> string json \<Rightarrow> string" where
  "fragment_dump level JNull = ''null''"
| "fragment_dump level (JBool b) = (if b then ''true'' else ''false'')"
| "fragment_dump level (JInt i) = str_int i"
| "fragment_dump level (JFloat x) = x"
| "fragment_dump level (JStr s) = quote s"
| "fragment_dump level (JArr xs) =
     (if xs = [] then ''[]''
      else ''['' @ newline_indent (Suc level)
           @ join ('','' @ newline_indent (Suc level)) (map (fragment_dump (Suc level)) xs)
           @ newline_indent level @ '']'')"
| "fragment_dump level (JObj kvs) =
     (if kvs = [] then ''{}''
      else ''{'' @ newline_indent (Suc level)
           @ join ('','' @ newline_indent (Suc level))
               (map (\<lambda>(k, v). quote k @ '': '' @ fragment_dump (Suc level) v) kvs)
           @ newline_indent level @ ''}'')"

subsection \<open>Concrete hosts\<close>

text \<open>
  A package manager over a list of installed packages with their versions, answering the
  three commands of the script as \<^verbatim>\<open>pip\<close> does: \<^verbatim>\<open>pip check\<close> exits with 0 unless
  \<open>conflicts\<close> is set, \<^verbatim>\<open>pip show\<close> exits with 1 for a package that is not installed, and
  \<^verbatim>\<open>pip list --format=json\<close> prints one object for each package.
\<close>

definition show_output :: "string \<Rightarrow> string \<Rightarrow> string" where
  "show_output name v =
     ''Name: '' @ name @ [CHR 0x0A] @ ''Version: '' @ v @ [CHR 0x0A]
       @ ''Location: /usr/lib/python3/site-packages'' @ [CHR 0x0A]"

definition list_output :: "(string \<times> string) list \<Rightarrow> string" where
  "list_output installed =
     ''['' @ join '', ''
              (map (\<lambda>(name, v). ''{'' @ quote ''name'' @ '': '' @ quote name @ '', ''
                                    @ quote ''version'' @ '': '' @ quote v @ ''}'') installed)
       @ '']'' @ [CHR 0x0A]"

definition pip :: "bool \<Rightarrow> (string \<times> string) list \<Rightarrow> string list \<Rightarrow> exn + completed" where
  "pip conflicts installed cmd =
     (if cmd = [''pip'', ''check''] then
        (if conflicts
         then Inr \<lparr>returncode = 1,
                   stdout = ''a 1.0 has requirement b>=2.0, but you have b 1.0.''\<rparr>
         else Inr \<lparr>returncode = 0, stdout = ''No broken requirements found.''\<rparr>)
      else if cmd = [''pip'', ''list'', ''--format=json''] then
        Inr \<lparr>returncode = 0, stdout = list_output installed\<rparr>
      else if length cmd = 3 \<and> take 2 cmd = [''pip'', ''show''] then
        (case map_of installed (cmd ! 2) of
           None \<Rightarrow> Inr \<lparr>returncode = 1, stdout = []\<rparr>
         | Some v \<Rightarrow> Inr \<lparr>returncode = 0, stdout = show_output (cmd ! 2) v\<rparr>)
      else Inr \<lparr>returncode = 1, stdout = []\<rparr>)"

definition host_of :: "(string list \<Rightarrow> exn + completed) \<Rightarrow> (nat list, string) host" where
  "host_of r =
     \<lparr>run = r,
      version_parse = release_parse,
      version_lt = tuple_lt,
      version_gt = (\<lambda>a b. tuple_lt b a),
      json_loads = fragment_loads,
      json_dumps = fragment_dump 0,
      open_fault = (\<lambda>path. None),
      write_fault = (\<lambda>path. None)\<rparr>"

text \<open>All four critical packages installed within their bounds.\<close>

definition healthy :: "(string \<times> string) list" where
  "healthy = [(''numpy'', ''1.22.0''), (''opencv-python'', ''4.6.0''),
              (''pillow'', ''9.0.0''), (''torch'', ''1.12.0'')]"

text \<open>The scenario of the spec: \<^verbatim>\<open>opencv-python\<close> is missing.\<close>

definition no_opencv :: "(string \<times> string) list" where
  "no_opencv = [(''numpy'', ''1.22.0''), (''pillow'', ''9.0.0''), (''torch'', ''1.12.0'')]"

text \<open>\<^verbatim>\<open>numpy\<close> above its maximum, and \<^verbatim>\<open>torch\<close> below its minimum.\<close>

definition numpy_ahead :: "(string \<times> string) list" where
  "numpy_ahead = [(''numpy'', ''1.25.0''), (''opencv-python'', ''4.6.0''),
                  (''pillow'', ''9.0.0''), (''torch'', ''1.12.0'')]"

definition torch_behind :: "(string \<times> string) list" where
  "torch_behind = [(''numpy'', ''1.22.0''), (''opencv-python'', ''4.6.0''),
                   (''pillow'', ''9.0.0''), (''torch'', ''1.9.0'')]"

text \<open>A machine without \<^verbatim>\<open>pip\<close>: every command fails to start.\<close>

definition no_pip :: "string list \<Rightarrow> exn + completed" where
  "no_pip cmd =
     Inl (Exception (''[Errno 2] No such file or directory: '' @ [CHR 0x27] @ ''pip''
                       @ [CHR 0x27]))"

text \<open>A package manager whose \<^verbatim>\<open>show\<close> prints the name only, with no version line.\<close>

definition terse_pip :: "string list \<Rightarrow> exn + completed" where
  "terse_pip cmd =
     (if length cmd = 3 \<and> take 2 cmd = [''pip'', ''show'']
      then Inr \<lparr>returncode = 0, stdout = ''Name: '' @ cmd ! 2 @ [CHR 0x0A]\<rparr>
      else pip False healthy cmd)"

text \<open>A world in which an earlier run has left a report.\<close>

definition stale_world :: world where
  "stale_world = \<lparr>trace = [], files = [''dependency_report.json'' \<mapsto> ''[]'']\<rparr>"


text \<open>
  \<^verbatim>\<open>numpy\<close> above its maximum, and a \<^verbatim>\<open>torch\<close> whose \<^verbatim>\<open>show\<close> prints no version line.
\<close>

definition torch_terse :: "string list \<Rightarrow> exn + completed" where
  "torch_terse cmd =
     (if cmd = [''pip'', ''show'', ''torch'']
      then Inr \<lparr>returncode = 0, stdout = ''Name: torch'' @ [CHR 0x0A]\<rparr>
      else pip False numpy_ahead cmd)"

subsection \<open>The values the JSON fragment covers\<close>

text \<open>
  The strings and values that the reader of the fragment can return: no float, and no
  quote, backslash or control character in a string. \<open>need\<close> is a depth of recursion
  that is enough to read a value back, and \<open>ok_rest\<close> says that the text after a number
  does not continue it.
\<close>

definition plain_char :: "char \<Rightarrow> bool" where
  "plain_char c = (c \<noteq> CHR 0x22 \<and> c \<noteq> CHR 0x5C \<and> 32 \<le> (of_char c :: nat))"

fun plain :: "string json \<Rightarrow> bool" where
  "plain JNull = True"
| "plain (JBool b) = True"
| "plain (JInt i) = True"
| "plain (JFloat x) = False"
| "plain (JStr s) = list_all plain_char s"
| "plain (JArr xs) = list_all plain xs"
| "plain (JObj kvs) = list_all (\<lambda>(k, v). list_all plain_char k \<and> plain v) kvs"

fun need :: "string json \<Rightarrow> nat" where
  "need (JArr xs) = Suc (length xs + sum_list (map need xs))"
| "need (JObj kvs) = Suc (length kvs + sum_list (map (\<lambda>(k, v). need v) kvs))"
| "need v = 1"

definition ok_rest :: "string \<Rightarrow> bool" where
  "ok_rest r = (case r of [] \<Rightarrow> True | c # cs \<Rightarrow> \<not> isdigit c \<and> c \<notin> set ''.eE'')"

subsection \<open>What a host reports about conflicts and the installed packages\<close>

text \<open>\<^verbatim>\<open>pip check\<close> ran and exited with 0.\<close>

definition conflict_free :: "('v, 'f) host \<Rightarrow> bool" where
  "conflict_free h =
     (case run h [''pip'', ''check''] of
        Inl e \<Rightarrow> False
      | Inr result \<Rightarrow> returncode result = 0)"

text \<open>The list that \<^verbatim>\<open>pip list --format=json\<close> stands for.\<close>

definition records_of :: "(string \<times> string) list \<Rightarrow> string json list" where
  "records_of installed =
     map (\<lambda>(name, v). JObj [(''name'', JStr name), (''version'', JStr v)]) installed"

section \<open>Properties\<close>

subsection \<open>The shape of every turn of the loop\<close>

lemmas py_defs =
  bind_py_def return_py_def lift_py_def try_except_def print_def subprocess_run_def

lemma world_trace_same [simp]: "w\<lparr>trace := trace w\<rparr> = w"
  by simp

lemma added_append [simp]: "added w (w\<lparr>trace := trace w @ evs\<rparr>) = evs"
  by (simp add: added_def)

lemma commands_append [simp]: "commands (xs @ ys) = commands xs @ commands ys"
  by (induction xs rule: commands.induct) simp_all

lemma scan_lines_find:
  "scan_lines h p mn mx ok ls =
     (case find (\<lambda>line. startswith line ''Version:'') ls of
        None \<Rightarrow> return_py ok
      | Some line \<Rightarrow> classify_version h p mn mx ok line)"
  by (induction ls) auto

text \<open>
  The verdict on a version line does not depend on the world, and \<^verbatim>\<open>all_ok\<close> enters it
  only as a conjunct: it can be left as it is or set to false, never set to true.
\<close>

lemma classify_version_uniform:
  "classify_version h p mn mx ok line w =
     (case classify_version h p mn mx True line empty_world of
        (Inl e, w1) \<Rightarrow> (Inl e, w\<lparr>trace := trace w @ trace w1\<rparr>)
      | (Inr b, w1) \<Rightarrow> (Inr (ok \<and> b), w\<lparr>trace := trace w @ trace w1\<rparr>))"
  by (auto simp: classify_version_def parsed_lt_def parsed_gt_def py_defs empty_world_def Let_def
      split: sum.splits option.splits prod.splits if_splits)

lemma check_package_uniform:
  "check_package h p mn mx ok w =
     (Inr (ok \<and> package_passes h (p, mn, mx)),
      w\<lparr>trace := trace w @ package_events h (p, mn, mx)\<rparr>)"
proof (cases "run h [''pip'', ''show'', p]")
  case (Inl e)
  then show ?thesis
    by (simp add: check_package_def package_passes_def package_events_def py_defs empty_world_def)
next
  case (Inr result)
  show ?thesis
  proof (cases "returncode result = 0")
    case False
    with Inr show ?thesis
      by (simp add: check_package_def package_passes_def package_events_def py_defs
          empty_world_def)
  next
    case True
    show ?thesis
    proof (cases "find (\<lambda>line. startswith line ''Version:'') (split_on CHR 0x0A (stdout result))")
      case None
      with Inr True show ?thesis
        by (simp add: check_package_def package_passes_def package_events_def py_defs
            empty_world_def scan_lines_find)
    next
      case (Some line)
      let ?w1 = "w\<lparr>trace := trace w @ [Run [''pip'', ''show'', p]]\<rparr>"
      let ?e1 = "empty_world\<lparr>trace := trace empty_world @ [Run [''pip'', ''show'', p]]\<rparr>"
      note u1 = classify_version_uniform [of h p mn mx ok line ?w1]
      note u2 = classify_version_uniform [of h p mn mx True line ?e1]
      from Inr True Some show ?thesis
        unfolding check_package_def package_passes_def package_events_def scan_lines_find
        apply (simp add: py_defs u1 u2 split: prod.splits sum.splits)
        apply (auto simp: empty_world_def)
        done
    qed
  qed
qed

lemma check_loop_uniform:
  "check_loop h ps ok w =
     (Inr (ok \<and> list_all (package_passes h) ps),
      w\<lparr>trace := trace w @ concat (map (package_events h) ps)\<rparr>)"
proof (induction ps arbitrary: ok w)
  case Nil
  show ?case by (simp add: return_py_def)
next
  case (Cons entry ps)
  obtain p mn mx where entry: "entry = (p, mn, mx)"
    by (cases entry) auto
  show ?case
    by (simp add: entry bind_py_def check_package_uniform Cons.IH)
qed

lemma check_critical_versions_uniform:
  "check_critical_versions h w =
     (Inr (list_all (package_passes h) critical_packages),
      w\<lparr>trace := trace w @ Print (CHR 0x0A # ''Checking critical package versions...'')
                    # concat (map (package_events h) critical_packages)\<rparr>)"
  by (simp add: check_critical_versions_def bind_py_def print_def check_loop_uniform)

subsection \<open>The outcomes of one turn\<close>

lemmas turn_defs =
  check_package_def scan_lines_find classify_version_def parsed_lt_def parsed_gt_def
  truthy_def Let_def py_defs empty_world_def

lemma installed_versionD:
  assumes "installed_version h p = Some v"
  shows "\<exists>result line field.
           run h [''pip'', ''show'', p] = Inr result \<and> returncode result = 0 \<and>
           find (\<lambda>line. startswith line ''Version:'') (split_on CHR 0x0A (stdout result))
             = Some line \<and>
           py_index (split_on CHR '':'' line) 1 = Inr field \<and> v = strip field"
  using assms
  by (auto simp: installed_version_def reported_version_def version_line_def
      split: sum.splits if_splits option.splits)

lemma package_not_installed:
  assumes "not_installed h p"
  shows "\<not> package_passes h (p, mn, mx)"
    and "package_events h (p, mn, mx) =
           [Run [''pip'', ''show'', p], Print (p @ '': NOT INSTALLED'')]"
  using assms
  by (auto simp: not_installed_def package_passes_def package_events_def check_package_def
      py_defs empty_world_def split: sum.splits)

lemma package_query_raises:
  assumes "run h [''pip'', ''show'', p] = Inl e"
  shows "\<not> package_passes h (p, mn, mx)"
    and "package_events h (p, mn, mx) =
           [Run [''pip'', ''show'', p], Print (''Error checking '' @ p @ '': '' @ str_exn e)]"
  using assms
  by (auto simp: package_passes_def package_events_def check_package_def
      py_defs empty_world_def)

lemma package_silent:
  assumes "silent h p"
  shows "package_passes h (p, mn, mx)"
    and "package_events h (p, mn, mx) = [Run [''pip'', ''show'', p]]"
  using assms
  by (auto simp: silent_def version_line_def package_passes_def package_events_def
      check_package_def scan_lines_find py_defs empty_world_def split: sum.splits)

lemma package_below_minimum:
  assumes "installed_version h p = Some v" and "below_minimum h v mn" and "mn \<noteq> []"
  shows "\<not> package_passes h (p, mn, mx)"
    and "package_events h (p, mn, mx) =
           [Run [''pip'', ''show'', p], Print (p @ '': '' @ v @ '' is below minimum '' @ mn)]"
  using installed_versionD [OF assms(1)] assms(2,3)
  by (auto simp: below_minimum_def compares_def package_passes_def package_events_def
      turn_defs split: sum.splits)

lemma package_parse_fails:
  assumes "installed_version h p = Some v" and "version_parse h v = Inl e" and "mn \<noteq> []"
  shows "\<not> package_passes h (p, mn, mx)"
    and "package_events h (p, mn, mx) =
           [Run [''pip'', ''show'', p], Print (''Error checking '' @ p @ '': '' @ str_exn e)]"
  using installed_versionD [OF assms(1)] assms(2,3)
  by (auto simp: package_passes_def package_events_def
      turn_defs split: sum.splits)

lemma package_above_maximum:
  assumes "installed_version h p = Some v" and "at_least_minimum h v mn"
    and "above_maximum h v m" and "m \<noteq> []"
  shows "package_passes h (p, mn, Some m)"
    and "package_events h (p, mn, Some m) =
           [Run [''pip'', ''show'', p], Print (p @ '': '' @ v @ '' exceeds maximum '' @ m)]"
  using installed_versionD [OF assms(1)] assms(2,3,4)
  by (auto simp: at_least_minimum_def above_maximum_def compares_def package_passes_def
      package_events_def turn_defs split: sum.splits)

lemma package_within_bounds:
  assumes "within_bounds h (p, mn, mx)"
  shows "package_passes h (p, mn, mx)"
    and "package_events h (p, mn, mx) =
           [Run [''pip'', ''show'', p],
            Print (p @ '': '' @ the (installed_version h p) @ '' (valid)'')]"
proof -
  from assms obtain v where v: "installed_version h p = Some v"
    and lo: "at_least_minimum h v mn"
    and hi: "case mx of None \<Rightarrow> True | Some m \<Rightarrow> at_most_maximum h v m"
    by (auto simp: within_bounds_def split: option.splits)
  from installed_versionD [OF v] lo hi
  show "package_passes h (p, mn, mx)"
    by (auto simp: at_least_minimum_def at_most_maximum_def compares_def package_passes_def
        turn_defs split: sum.splits option.splits)
  from installed_versionD [OF v] lo hi v
  show "package_events h (p, mn, mx) =
           [Run [''pip'', ''show'', p],
            Print (p @ '': '' @ the (installed_version h p) @ '' (valid)'')]"
    by (auto simp: at_least_minimum_def at_most_maximum_def compares_def package_events_def
        turn_defs split: sum.splits option.splits)
qed

lemma package_meets_minimum:
  assumes "meets_minimum h entry"
  shows "package_passes h entry"
proof -
  obtain p mn mx where entry: "entry = (p, mn, mx)"
    by (cases entry) auto
  from assms obtain v where v: "installed_version h p = Some v"
    and lo: "at_least_minimum h v mn"
    and hi: "case mx of None \<Rightarrow> True
             | Some m \<Rightarrow> at_most_maximum h v m \<or> above_maximum h v m"
    by (auto simp: entry meets_minimum_def split: option.splits)
  from installed_versionD [OF v] lo hi
  show ?thesis
    by (auto simp: entry at_least_minimum_def at_most_maximum_def above_maximum_def
        compares_def package_passes_def
        turn_defs split: sum.splits option.splits)
qed

text \<open>Whatever the outcome, one turn runs exactly one command: the query for its package.\<close>

lemma classify_version_commands:
  "commands (trace (snd (classify_version h p mn mx ok line w))) = commands (trace w)"
  by (auto simp: classify_version_def parsed_lt_def parsed_gt_def py_defs Let_def
      split: sum.splits option.splits prod.splits if_splits)

lemma package_commands:
  "commands (package_events h (p, mn, mx)) = [[''pip'', ''show'', p]]"
proof (cases "run h [''pip'', ''show'', p]")
  case (Inl e)
  then show ?thesis
    by (simp add: package_query_raises)
next
  case (Inr result)
  show ?thesis
  proof (cases "returncode result = 0")
    case False
    with Inr have "not_installed h p"
      by (simp add: not_installed_def)
    then show ?thesis
      by (simp add: package_not_installed)
  next
    case True
    let ?e1 = "empty_world\<lparr>trace := trace empty_world @ [Run [''pip'', ''show'', p]]\<rparr>"
    show ?thesis
    proof (cases "find (\<lambda>line. startswith line ''Version:'') (split_on CHR 0x0A (stdout result))")
      case None
      with Inr True have "silent h p"
        by (simp add: silent_def version_line_def)
      then show ?thesis
        by (simp add: package_silent)
    next
      case (Some line)
      note c = classify_version_commands [of h p mn mx True line ?e1]
      from Inr True Some c show ?thesis
        by (auto simp: package_events_def check_package_def scan_lines_find py_defs
            empty_world_def split: prod.splits sum.splits)
    qed
  qed
qed

lemma loop_commands:
  "commands (concat (map (package_events h) ps)) = map (\<lambda>entry. [''pip'', ''show'', fst entry]) ps"
proof (induction ps)
  case Nil
  show ?case by simp
next
  case (Cons entry ps)
  obtain p mn mx where entry: "entry = (p, mn, mx)"
    by (cases entry) auto
  from Cons.IH show ?case
    by (simp add: entry package_commands)
qed

subsection \<open>The table\<close>

lemma critical_minimum_nonempty:
  "(p, mn, mx) \<in> set critical_packages \<Longrightarrow> mn \<noteq> []"
  by (auto simp: critical_packages_def)

lemma critical_maximum_nonempty:
  "(p, mn, Some m) \<in> set critical_packages \<Longrightarrow> m \<noteq> []"
  by (auto simp: critical_packages_def)

lemma versions_result:
  "fst (check_critical_versions h w) = Inr (list_all (package_passes h) critical_packages)"
  by (simp add: check_critical_versions_uniform)

lemma versions_added:
  "added w (snd (check_critical_versions h w)) =
     Print (CHR 0x0A # ''Checking critical package versions...'')
       # concat (map (package_events h) critical_packages)"
  by (simp add: check_critical_versions_uniform)

lemma failing_package_fails_check:
  assumes "entry \<in> set critical_packages" and "\<not> package_passes h entry"
  shows "fst (check_critical_versions h w) = Inr False"
  using assms by (auto simp: versions_result list_all_iff)

lemma package_events_added:
  assumes "entry \<in> set critical_packages" and "ev \<in> set (package_events h entry)"
  shows "ev \<in> set (added w (snd (check_critical_versions h w)))"
  using assms by (auto simp: versions_added)

subsection \<open>The version check\<close>

text \<open>
  C2. If every package of the table is installed, its version line is reported, and the
  version is not below the minimum and not above the maximum (or there is no maximum),
  the version check returns true.
\<close>

theorem versions_within_bounds_pass:
  assumes "\<forall>entry \<in> set critical_packages. within_bounds h entry"
  shows "fst (check_critical_versions h w) = Inr True"
proof -
  have "package_passes h entry" if "entry \<in> set critical_packages" for entry
  proof -
    obtain p mn mx where entry: "entry = (p, mn, mx)"
      by (cases entry) auto
    from assms that have "within_bounds h (p, mn, mx)"
      by (auto simp: entry)
    then show ?thesis
      by (simp add: entry package_within_bounds(1))
  qed
  then show ?thesis
    by (simp add: versions_result list_all_iff)
qed

theorem versions_within_bounds_pass_witness:
  "list_all (within_bounds (host_of (pip False healthy))) critical_packages \<and>
   fst (check_critical_versions (host_of (pip False healthy)) empty_world) = Inr True"
proof -
  have ok: "list_all (within_bounds (host_of (pip False healthy))) critical_packages"
    by code_simp
  from ok versions_within_bounds_pass [OF ok [unfolded list_all_iff], of empty_world]
  show ?thesis
    by simp
qed

lemma printed_append [simp]: "printed (xs @ ys) = printed xs @ printed ys"
  by (induction xs rule: printed.induct) simp_all

text \<open>
  A turn leaves \<^verbatim>\<open>all_ok\<close> as it is exactly when the package prints no version line or is
  installed at a version that is not below its minimum: every other outcome is a missing
  package, a version below the minimum or an error.
\<close>

lemma package_passes_iff:
  assumes "mn \<noteq> []" and "\<And>m. mx = Some m \<Longrightarrow> m \<noteq> []"
  shows "package_passes h (p, mn, mx) = (silent h p \<or> meets_minimum h (p, mn, mx))"
proof
  assume "silent h p \<or> meets_minimum h (p, mn, mx)"
  then show "package_passes h (p, mn, mx)"
    by (auto simp: package_silent(1) package_meets_minimum)
next
  assume passes: "package_passes h (p, mn, mx)"
  show "silent h p \<or> meets_minimum h (p, mn, mx)"
  proof (cases "run h [''pip'', ''show'', p]")
    case (Inl e)
    with passes show ?thesis
      by (simp add: package_query_raises(1))
  next
    case (Inr result)
    show ?thesis
    proof (cases "returncode result = 0")
      case False
      with Inr have "not_installed h p"
        by (simp add: not_installed_def)
      with passes show ?thesis
        by (simp add: package_not_installed(1))
    next
      case True
      show ?thesis
      proof (cases "version_line (stdout result)")
        case None
        with Inr True show ?thesis
          by (simp add: silent_def)
      next
        case (Some line)
        from Some have "startswith line ''Version:''"
          by (auto simp: version_line_def dest: find_Some_iff [THEN iffD1])
        then have "py_index (split_on CHR '':'' line) 1 \<noteq> Inl e" for e
          using passes Inr True Some
          by (auto simp: package_passes_def version_line_def turn_defs split: sum.splits)
        then obtain field where field: "py_index (split_on CHR '':'' line) 1 = Inr field"
          by (cases "py_index (split_on CHR '':'' line) 1") auto
        with Inr True Some have v: "installed_version h p = Some (strip field)"
          by (simp add: installed_version_def reported_version_def)
        from passes Inr True Some field assms
        have "at_least_minimum h (strip field) mn \<and>
              (case mx of None \<Rightarrow> True
               | Some m \<Rightarrow> at_most_maximum h (strip field) m \<or> above_maximum h (strip field) m)"
          by (auto simp: package_passes_def version_line_def at_least_minimum_def
              at_most_maximum_def above_maximum_def compares_def turn_defs
              split: sum.splits option.splits if_splits)
        with v show ?thesis
          by (simp add: meets_minimum_def)
      qed
    qed
  qed
qed

lemma versions_pass_iff:
  "(fst (check_critical_versions h w) = Inr True) =
     (\<forall>entry \<in> set critical_packages. silent h (fst entry) \<or> meets_minimum h entry)"
proof -
  have "package_passes h entry = (silent h (fst entry) \<or> meets_minimum h entry)"
    if "entry \<in> set critical_packages" for entry
  proof -
    obtain p mn mx where entry: "entry = (p, mn, mx)"
      by (cases entry) auto
    from that have "mn \<noteq> []" and "\<And>m. mx = Some m \<Longrightarrow> m \<noteq> []"
      by (auto simp: entry critical_packages_def)
    then show ?thesis
      by (simp add: entry package_passes_iff)
  qed
  then show ?thesis
    by (auto simp: versions_result list_all_iff)
qed

text \<open>
  C3. A package of the table whose installed version is above its maximum gets the
  exceeds-maximum warning and leaves \<^verbatim>\<open>all_ok\<close> as it is; the check returns true exactly
  when no package of the table is missing, below its minimum or in error, that is, when
  each one either prints no version line or is installed at a version that is not below
  its minimum. The warning is the \<^verbatim>\<open>elif\<close> branch of the below-minimum test, so the package
  itself must not be below its minimum; for a version library that orders versions this
  follows from its being above the maximum, as every minimum of the table is below its
  maximum.
\<close>

theorem above_maximum_warns_only:
  assumes "(p, mn, Some m) \<in> set critical_packages"
    and "installed_version h p = Some v"
    and "at_least_minimum h v mn"
    and "above_maximum h v m"
  shows "check_package h p mn (Some m) all_ok w' =
           (Inr all_ok,
            w'\<lparr>trace := trace w' @ [Run [''pip'', ''show'', p],
                                     Print (p @ '': '' @ v @ '' exceeds maximum '' @ m)]\<rparr>) \<and>
         Print (p @ '': '' @ v @ '' exceeds maximum '' @ m)
           \<in> set (added w (snd (check_critical_versions h w))) \<and>
         (fst (check_critical_versions h w) = Inr True) =
           (\<forall>entry \<in> set critical_packages. silent h (fst entry) \<or> meets_minimum h entry)"
proof -
  have m: "m \<noteq> []"
    using assms(1) by (rule critical_maximum_nonempty)
  note turn = package_above_maximum [OF assms(2) assms(3) assms(4) m]
  have one: "check_package h p mn (Some m) all_ok w' =
           (Inr all_ok,
            w'\<lparr>trace := trace w' @ [Run [''pip'', ''show'', p],
                                     Print (p @ '': '' @ v @ '' exceeds maximum '' @ m)]\<rparr>)"
    by (simp add: check_package_uniform turn)
  have two: "Print (p @ '': '' @ v @ '' exceeds maximum '' @ m)
           \<in> set (added w (snd (check_critical_versions h w)))"
    by (rule package_events_added [OF assms(1)]) (simp add: turn)
  from one two versions_pass_iff [of h w] show ?thesis
    by blast
qed

theorem above_maximum_warns_only_witness:
  "(''numpy'', ''1.21.0'', Some ''1.24.0'') \<in> set critical_packages \<and>
   installed_version (host_of torch_terse) ''numpy'' = Some ''1.25.0'' \<and>
   at_least_minimum (host_of torch_terse) ''1.25.0'' ''1.21.0'' \<and>
   above_maximum (host_of torch_terse) ''1.25.0'' ''1.24.0'' \<and>
   silent (host_of torch_terse) ''torch'' \<and>
   list_all (\<lambda>entry. silent (host_of torch_terse) (fst entry)
                       \<or> meets_minimum (host_of torch_terse) entry) critical_packages \<and>
   Print ''numpy: 1.25.0 exceeds maximum 1.24.0''
     \<in> set (added empty_world
              (snd (check_critical_versions (host_of torch_terse) empty_world))) \<and>
   fst (check_critical_versions (host_of torch_terse) empty_world) = Inr True"
proof -
  have a: "(''numpy'', ''1.21.0'', Some ''1.24.0'') \<in> set critical_packages"
    by code_simp
  have b: "installed_version (host_of torch_terse) ''numpy'' = Some ''1.25.0''"
    by code_simp
  have c: "at_least_minimum (host_of torch_terse) ''1.25.0'' ''1.21.0''"
    by code_simp
  have d: "above_maximum (host_of torch_terse) ''1.25.0'' ''1.24.0''"
    by code_simp
  have e: "silent (host_of torch_terse) ''torch''"
    by code_simp
  have f: "list_all (\<lambda>entry. silent (host_of torch_terse) (fst entry)
                       \<or> meets_minimum (host_of torch_terse) entry) critical_packages"
    by code_simp
  from a b c d e f above_maximum_warns_only [OF a b c d, of True empty_world empty_world]
  show ?thesis
    by (simp add: list_all_iff)
qed

text \<open>
  C4. A package of the table whose installed version is below its minimum makes the
  version check return false, whatever the other packages are: once \<^verbatim>\<open>all_ok\<close> is false,
  no later turn of the loop sets it back.
\<close>

theorem below_minimum_fails:
  assumes "(p, mn, mx) \<in> set critical_packages"
    and "installed_version h p = Some v"
    and "below_minimum h v mn"
  shows "fst (check_critical_versions h w) = Inr False \<and>
         Print (p @ '': '' @ v @ '' is below minimum '' @ mn)
           \<in> set (added w (snd (check_critical_versions h w))) \<and>
         fst (check_loop h later False w') = Inr False"
proof -
  have mn: "mn \<noteq> []"
    using assms(1) by (rule critical_minimum_nonempty)
  note turn = package_below_minimum [OF assms(2) assms(3) mn]
  have one: "fst (check_critical_versions h w) = Inr False"
    using assms(1) turn(1) by (rule failing_package_fails_check)
  have two: "Print (p @ '': '' @ v @ '' is below minimum '' @ mn)
           \<in> set (added w (snd (check_critical_versions h w)))"
    by (rule package_events_added [OF assms(1)]) (simp add: turn)
  have three: "fst (check_loop h later False w') = Inr False"
    by (simp add: check_loop_uniform)
  from one two three show ?thesis
    by blast
qed

theorem below_minimum_fails_witness:
  "(''torch'', ''1.10.0'', None) \<in> set critical_packages \<and>
   installed_version (host_of (pip False torch_behind)) ''torch'' = Some ''1.9.0'' \<and>
   below_minimum (host_of (pip False torch_behind)) ''1.9.0'' ''1.10.0'' \<and>
   fst (check_critical_versions (host_of (pip False torch_behind)) empty_world) = Inr False \<and>
   Print ''torch: 1.9.0 is below minimum 1.10.0''
     \<in> set (added empty_world
              (snd (check_critical_versions (host_of (pip False torch_behind)) empty_world)))"
proof -
  have a: "(''torch'', ''1.10.0'', None) \<in> set critical_packages"
    by code_simp
  have b: "installed_version (host_of (pip False torch_behind)) ''torch'' = Some ''1.9.0''"
    by code_simp
  have c: "below_minimum (host_of (pip False torch_behind)) ''1.9.0'' ''1.10.0''"
    by code_simp
  from a b c below_minimum_fails [OF a b c, of empty_world "[]" empty_world]
  show ?thesis
    by simp
qed

text \<open>
  C5. When a package of the table is not installed, or the query for it raises (the
  command cannot be started, or the reported version does not parse), the version check
  prints a message naming the package and returns false; and it still queries every
  package of the table, in the order of the table, before it returns.
\<close>

theorem failed_query_fails_and_loop_continues:
  assumes "(p, mn, mx) \<in> set critical_packages"
    and "not_installed h p \<or> run h [''pip'', ''show'', p] = Inl e \<or>
         (\<exists>v. installed_version h p = Some v \<and> version_parse h v = Inl e)"
  shows "fst (check_critical_versions h w) = Inr False \<and>
         Print (if not_installed h p then p @ '': NOT INSTALLED''
                else ''Error checking '' @ p @ '': '' @ str_exn e)
           \<in> set (added w (snd (check_critical_versions h w))) \<and>
         commands (added w (snd (check_critical_versions h w))) =
           [[''pip'', ''show'', ''torch''], [''pip'', ''show'', ''numpy''],
            [''pip'', ''show'', ''opencv-python''], [''pip'', ''show'', ''pillow'']]"
proof -
  have mn: "mn \<noteq> []"
    using assms(1) by (rule critical_minimum_nonempty)
  have turn: "\<not> package_passes h (p, mn, mx) \<and>
      Print (if not_installed h p then p @ '': NOT INSTALLED''
             else ''Error checking '' @ p @ '': '' @ str_exn e)
        \<in> set (package_events h (p, mn, mx))"
  proof -
    consider (missing) "not_installed h p"
      | (raises) "run h [''pip'', ''show'', p] = Inl e"
      | (unparsed) v where "installed_version h p = Some v" "version_parse h v = Inl e"
      using assms(2) by blast
    then show ?thesis
    proof cases
      case missing
      then show ?thesis
        by (simp add: package_not_installed)
    next
      case raises
      then have "\<not> not_installed h p"
        by (simp add: not_installed_def)
      with raises show ?thesis
        by (simp add: package_query_raises)
    next
      case unparsed
      then have "\<not> not_installed h p"
        by (auto simp: not_installed_def installed_version_def split: sum.splits if_splits)
      with unparsed mn show ?thesis
        by (simp add: package_parse_fails)
    qed
  qed
  have one: "fst (check_critical_versions h w) = Inr False"
    using assms(1) turn by (blast intro: failing_package_fails_check)
  have two: "Print (if not_installed h p then p @ '': NOT INSTALLED''
                else ''Error checking '' @ p @ '': '' @ str_exn e)
           \<in> set (added w (snd (check_critical_versions h w)))"
    using assms(1) turn by (blast intro: package_events_added)
  have three: "commands (added w (snd (check_critical_versions h w))) =
           [[''pip'', ''show'', ''torch''], [''pip'', ''show'', ''numpy''],
            [''pip'', ''show'', ''opencv-python''], [''pip'', ''show'', ''pillow'']]"
    by (simp add: versions_added loop_commands) (simp add: critical_packages_def)
  from one two three show ?thesis
    by blast
qed

theorem failed_query_fails_and_loop_continues_witness:
  "(''torch'', ''1.10.0'', None) \<in> set critical_packages \<and>
   run (host_of no_pip) [''pip'', ''show'', ''torch'']
     = Inl (Exception (''[Errno 2] No such file or directory: '' @ [CHR 0x27] @ ''pip''
                       @ [CHR 0x27])) \<and>
   fst (check_critical_versions (host_of no_pip) empty_world) = Inr False \<and>
   Print (''Error checking torch: [Errno 2] No such file or directory: '' @ [CHR 0x27]
            @ ''pip'' @ [CHR 0x27])
     \<in> set (added empty_world (snd (check_critical_versions (host_of no_pip) empty_world))) \<and>
   commands (added empty_world (snd (check_critical_versions (host_of no_pip) empty_world))) =
     [[''pip'', ''show'', ''torch''], [''pip'', ''show'', ''numpy''],
      [''pip'', ''show'', ''opencv-python''], [''pip'', ''show'', ''pillow'']]"
proof -
  have a: "(''torch'', ''1.10.0'', None) \<in> set critical_packages"
    by code_simp
  have b: "run (host_of no_pip) [''pip'', ''show'', ''torch'']
     = Inl (Exception (''[Errno 2] No such file or directory: '' @ [CHR 0x27] @ ''pip''
                       @ [CHR 0x27]))"
    by code_simp
  have c: "\<not> not_installed (host_of no_pip) ''torch''"
    by code_simp
  from a b c failed_query_fails_and_loop_continues [OF a disjI2 [OF disjI1 [OF b]], of empty_world]
  show ?thesis
    by simp
qed

text \<open>
  C10. When the query for a package of the table succeeds and its output has no line
  that starts with \<^verbatim>\<open>Version:\<close>, the turn for that package prints nothing and leaves
  \<^verbatim>\<open>all_ok\<close> as it is, and the loop goes on with the packages after it: the version check
  still queries all four packages in the order of the table, and it returns true if
  every package is either like that or within its bounds.
\<close>

theorem no_version_line_passes_silently:
  assumes "(p, mn, mx) \<in> set critical_packages"
    and "silent h p"
  shows "check_package h p mn mx all_ok w' =
           (Inr all_ok, w'\<lparr>trace := trace w' @ [Run [''pip'', ''show'', p]]\<rparr>) \<and>
         check_loop h ((p, mn, mx) # later) all_ok w' =
           check_loop h later all_ok (w'\<lparr>trace := trace w' @ [Run [''pip'', ''show'', p]]\<rparr>) \<and>
         commands (added w (snd (check_critical_versions h w))) =
           [[''pip'', ''show'', ''torch''], [''pip'', ''show'', ''numpy''],
            [''pip'', ''show'', ''opencv-python''], [''pip'', ''show'', ''pillow'']] \<and>
         printed (added w (snd (check_critical_versions h w))) =
           (CHR 0x0A # ''Checking critical package versions...'')
             # concat (map (\<lambda>entry. printed (package_events h entry))
                          (filter (\<lambda>entry. fst entry \<noteq> p) critical_packages)) \<and>
         ((\<forall>entry \<in> set critical_packages. silent h (fst entry) \<or> within_bounds h entry) \<longrightarrow>
            fst (check_critical_versions h w) = Inr True)"
proof -
  note turn = package_silent [OF assms(2)]
  have one: "check_package h p mn mx all_ok w' =
           (Inr all_ok, w'\<lparr>trace := trace w' @ [Run [''pip'', ''show'', p]]\<rparr>)"
    by (simp add: check_package_uniform turn)
  have two: "check_loop h ((p, mn, mx) # later) all_ok w' =
           check_loop h later all_ok (w'\<lparr>trace := trace w' @ [Run [''pip'', ''show'', p]]\<rparr>)"
    by (simp add: bind_py_def one)
  have three: "commands (added w (snd (check_critical_versions h w))) =
           [[''pip'', ''show'', ''torch''], [''pip'', ''show'', ''numpy''],
            [''pip'', ''show'', ''opencv-python''], [''pip'', ''show'', ''pillow'']]"
    by (simp add: versions_added loop_commands) (simp add: critical_packages_def)
  have quiet: "printed (package_events h entry) = []" if "fst entry = p" for entry
  proof -
    obtain q lo hi where entry: "entry = (q, lo, hi)"
      by (cases entry) auto
    with that assms(2) show ?thesis
      by (simp add: package_silent(2))
  qed
  have "printed (concat (map (package_events h) ps)) =
          concat (map (\<lambda>entry. printed (package_events h entry))
                    (filter (\<lambda>entry. fst entry \<noteq> p) ps))" for ps
    by (induction ps) (simp_all add: printed_append quiet)
  then have four: "printed (added w (snd (check_critical_versions h w))) =
           (CHR 0x0A # ''Checking critical package versions...'')
             # concat (map (\<lambda>entry. printed (package_events h entry))
                          (filter (\<lambda>entry. fst entry \<noteq> p) critical_packages))"
    by (simp add: versions_added)
  have five: "fst (check_critical_versions h w) = Inr True"
    if all: "\<forall>entry \<in> set critical_packages. silent h (fst entry) \<or> within_bounds h entry"
  proof -
    have "package_passes h entry" if "entry \<in> set critical_packages" for entry
    proof -
      obtain q lo hi where entry: "entry = (q, lo, hi)"
        by (cases entry) auto
      from all that have "silent h q \<or> within_bounds h (q, lo, hi)"
        by (auto simp: entry)
      then show ?thesis
        by (auto simp: entry package_silent(1) package_within_bounds(1))
    qed
    then show ?thesis
      by (simp add: versions_result list_all_iff)
  qed
  from one two three four five show ?thesis
    by blast
qed

theorem no_version_line_passes_silently_witness:
  "(''torch'', ''1.10.0'', None) \<in> set critical_packages \<and>
   silent (host_of torch_terse) ''torch'' \<and>
   check_package (host_of torch_terse) ''torch'' ''1.10.0'' None False empty_world =
     (Inr False, empty_world\<lparr>trace := trace empty_world @ [Run [''pip'', ''show'', ''torch'']]\<rparr>) \<and>
   commands (added empty_world
      (snd (check_critical_versions (host_of torch_terse) empty_world))) =
     [[''pip'', ''show'', ''torch''], [''pip'', ''show'', ''numpy''],
      [''pip'', ''show'', ''opencv-python''], [''pip'', ''show'', ''pillow'']] \<and>
   list_all (\<lambda>entry. silent (host_of terse_pip) (fst entry)) critical_packages \<and>
   fst (check_critical_versions (host_of terse_pip) empty_world) = Inr True"
proof -
  have a: "(''torch'', ''1.10.0'', None) \<in> set critical_packages"
    by code_simp
  have b: "silent (host_of torch_terse) ''torch''"
    by code_simp
  have b': "silent (host_of terse_pip) ''torch''"
    by code_simp
  have c: "list_all (\<lambda>entry. silent (host_of terse_pip) (fst entry)) critical_packages"
    by code_simp
  note at_torch = no_version_line_passes_silently [OF a b, of False empty_world "[]" empty_world]
  note at_terse = no_version_line_passes_silently [OF a b', of False empty_world "[]" empty_world]
  have one: "check_package (host_of torch_terse) ''torch'' ''1.10.0'' None False empty_world =
     (Inr False, empty_world\<lparr>trace := trace empty_world @ [Run [''pip'', ''show'', ''torch'']]\<rparr>)"
    using at_torch by blast
  have two: "commands (added empty_world
      (snd (check_critical_versions (host_of torch_terse) empty_world))) =
     [[''pip'', ''show'', ''torch''], [''pip'', ''show'', ''numpy''],
      [''pip'', ''show'', ''opencv-python''], [''pip'', ''show'', ''pillow'']]"
    using at_torch by blast
  have three: "fst (check_critical_versions (host_of terse_pip) empty_world) = Inr True"
    using at_terse c by (simp add: list_all_iff)
  from a b c one two three show ?thesis
    by blast
qed

subsection \<open>The conflict check\<close>

lemma check_dependency_conflicts_uniform:
  "check_dependency_conflicts h w =
     (Inr (conflict_free h),
      w\<lparr>trace := trace w @
         Print ''Checking for dependency conflicts...'' # Run [''pip'', ''check''] #
         (case run h [''pip'', ''check''] of
            Inl e \<Rightarrow> [Print (''Error checking dependencies: '' @ str_exn e)]
          | Inr result \<Rightarrow>
              if returncode result = 0 then [Print ''No dependency conflicts found'']
              else [Print ''Dependency conflicts detected:'', Print (stdout result)])\<rparr>)"
  by (simp add: check_dependency_conflicts_def conflict_free_def py_defs split: sum.splits)

text \<open>
  C6. The conflict check returns true exactly when \<^verbatim>\<open>pip check\<close> ran and exited with 0.
  When the command reports conflicts or cannot be run, the check returns false: its
  result is always a returned boolean, never a raised exception, and a fault of the
  command is printed.
\<close>

theorem conflict_check_iff_pip_check_succeeds:
  "fst (check_dependency_conflicts h w) = Inr (conflict_free h) \<and>
   conflict_free h = (\<exists>result. run h [''pip'', ''check''] = Inr result \<and> returncode result = 0) \<and>
   printed (added w (snd (check_dependency_conflicts h w))) =
     ''Checking for dependency conflicts...'' #
     (case run h [''pip'', ''check''] of
        Inl e \<Rightarrow> [''Error checking dependencies: '' @ str_exn e]
      | Inr result \<Rightarrow>
          if returncode result = 0 then [''No dependency conflicts found'']
          else [''Dependency conflicts detected:'', stdout result])"
  by (auto simp: check_dependency_conflicts_uniform conflict_free_def split: sum.splits)

theorem conflict_check_iff_pip_check_succeeds_witness:
  "fst (check_dependency_conflicts (host_of (pip True healthy)) empty_world) = Inr False \<and>
   fst (check_dependency_conflicts (host_of (pip False healthy)) empty_world) = Inr True \<and>
   fst (check_dependency_conflicts (host_of no_pip) empty_world) = Inr False \<and>
   conflict_free (host_of (pip False healthy)) \<and>
   printed (added empty_world (snd (check_dependency_conflicts (host_of no_pip) empty_world))) =
     [''Checking for dependency conflicts...'',
      ''Error checking dependencies: [Errno 2] No such file or directory: '' @ [CHR 0x27]
        @ ''pip'' @ [CHR 0x27]]"
proof -
  have a: "\<not> conflict_free (host_of (pip True healthy))"
    by code_simp
  have b: "conflict_free (host_of (pip False healthy))"
    by code_simp
  have c: "\<not> conflict_free (host_of no_pip)"
    by code_simp
  have d: "run (host_of no_pip) [''pip'', ''check''] =
     Inl (Exception (''[Errno 2] No such file or directory: '' @ [CHR 0x27] @ ''pip''
                       @ [CHR 0x27]))"
    by code_simp
  from a b c d
    conflict_check_iff_pip_check_succeeds [of "host_of (pip True healthy)" empty_world]
    conflict_check_iff_pip_check_succeeds [of "host_of (pip False healthy)" empty_world]
    conflict_check_iff_pip_check_succeeds [of "host_of no_pip" empty_world]
  show ?thesis
    by simp
qed

subsection \<open>The report\<close>

text \<open>Report generation returns, whatever the host answers.\<close>

lemma generate_dependency_report_returns:
  "fst (generate_dependency_report h w) = Inr ()"
  by (auto simp: generate_dependency_report_def write_file_def py_defs
      split: sum.splits option.splits prod.splits)

lemma generate_dependency_report_without_listing:
  assumes "run h [''pip'', ''list'', ''--format=json''] = Inl e"
  shows "generate_dependency_report h w =
           (Inr (),
            w\<lparr>trace := trace w @
               [Print (CHR 0x0A # ''Generating dependency report...''),
                Run [''pip'', ''list'', ''--format=json''],
                Print (''Error generating report: '' @ str_exn e)]\<rparr>)"
  using assms by (simp add: generate_dependency_report_def py_defs)

lemma generate_dependency_report_writes:
  assumes "run h [''pip'', ''list'', ''--format=json''] = Inr result"
    and "json_loads h (stdout result) = Inr (JArr packages)"
    and "open_fault h ''dependency_report.json'' = None"
    and "write_fault h ''dependency_report.json'' = None"
  shows "generate_dependency_report h w =
           (Inr (),
            w\<lparr>trace := trace w @
               [Print (CHR 0x0A # ''Generating dependency report...''),
                Run [''pip'', ''list'', ''--format=json''],
                Print (''Total packages installed: '' @ str_nat (length packages)),
                Print ''Dependency report saved to dependency_report.json''],
              files := (files w)(''dependency_report.json'' \<mapsto> json_dumps h (JArr packages))\<rparr>)"
  using assms by (simp add: generate_dependency_report_def write_file_def py_defs)

subsection \<open>The entry point\<close>

lemma main_result:
  "fst (main h w) =
     Inr (if conflict_free h \<and> list_all (package_passes h) critical_packages then 0 else 1)"
proof -
  obtain w3 where "generate_dependency_report h
      (snd (check_critical_versions h (snd (check_dependency_conflicts h w)))) = (Inr (), w3)"
    using generate_dependency_report_returns
    by (metis prod.collapse)
  then show ?thesis
    by (simp add: main_def bind_py_def check_dependency_conflicts_uniform
        check_critical_versions_uniform print_def return_py_def)
qed

lemma main_exit_status:
  "exit_status (main h w) =
     (if conflict_free h \<and> list_all (package_passes h) critical_packages then 0 else 1)"
  using main_result [of h w] by (cases "main h w") simp

lemma main_files:
  "files (snd (main h w)) =
     files (snd (generate_dependency_report h
       (snd (check_critical_versions h (snd (check_dependency_conflicts h w))))))"
proof -
  obtain w3 where "generate_dependency_report h
      (snd (check_critical_versions h (snd (check_dependency_conflicts h w)))) = (Inr (), w3)"
    using generate_dependency_report_returns
    by (metis prod.collapse)
  then show ?thesis
    by (simp add: main_def bind_py_def check_dependency_conflicts_uniform
        check_critical_versions_uniform print_def return_py_def)
qed

text \<open>What the two checks return depends on the answers to their own commands only.\<close>

lemma parsed_lt_cong:
  assumes "version_parse h' = version_parse h" and "version_lt h' = version_lt h"
  shows "parsed_lt h' = parsed_lt h"
  by (intro ext) (simp add: parsed_lt_def assms)

lemma parsed_gt_cong:
  assumes "version_parse h' = version_parse h" and "version_gt h' = version_gt h"
  shows "parsed_gt h' = parsed_gt h"
  by (intro ext) (simp add: parsed_gt_def assms)

lemma classify_version_cong:
  assumes "version_parse h' = version_parse h"
    and "version_lt h' = version_lt h" and "version_gt h' = version_gt h"
  shows "classify_version h' = classify_version h"
  by (intro ext)
    (simp only: classify_version_def parsed_lt_cong [OF assms(1,2)]
      parsed_gt_cong [OF assms(1,3)])

lemma scan_lines_cong:
  assumes "version_parse h' = version_parse h"
    and "version_lt h' = version_lt h" and "version_gt h' = version_gt h"
  shows "scan_lines h' = scan_lines h"
proof (intro ext)
  fix p mn mx ok ls w
  show "scan_lines h' p mn mx ok ls w = scan_lines h p mn mx ok ls w"
    by (induction ls) (simp_all add: classify_version_cong [OF assms])
qed

lemma check_package_cong:
  assumes "version_parse h' = version_parse h"
    and "version_lt h' = version_lt h" and "version_gt h' = version_gt h"
    and "\<And>p. run h' [''pip'', ''show'', p] = run h [''pip'', ''show'', p]"
  shows "check_package h' = check_package h"
  by (intro ext)
    (simp only: check_package_def subprocess_run_def scan_lines_cong [OF assms(1,2,3)]
      assms(4))

lemma package_passes_cong:
  assumes "version_parse h' = version_parse h"
    and "version_lt h' = version_lt h" and "version_gt h' = version_gt h"
    and "\<And>p. run h' [''pip'', ''show'', p] = run h [''pip'', ''show'', p]"
  shows "package_passes h' = package_passes h"
  by (intro ext) (simp only: package_passes_def check_package_cong [OF assms])

lemma package_passes_without_report:
  "package_passes
     (h\<lparr>run := (run h)([''pip'', ''list'', ''--format=json''] := answer),
        json_loads := jl, json_dumps := jd, open_fault := opf, write_fault := wrf\<rparr>) =
   package_passes h"
  by (rule package_passes_cong) simp_all

lemma conflict_free_cong:
  "conflict_free
     (h\<lparr>run := (run h)([''pip'', ''list'', ''--format=json''] := answer),
        json_loads := jl, json_dumps := jd, open_fault := opf, write_fault := wrf\<rparr>) =
   conflict_free h"
  by (simp add: conflict_free_def)

text \<open>
  C1. The exit status is 0 exactly when the conflict check and the version check both
  return true, and 1 otherwise. Report generation has no part in it: the status stays
  the same whatever \<^verbatim>\<open>pip list\<close>, the JSON library and the file system do, and whatever
  files there are.
\<close>

theorem exit_status_iff_both_checks:
  "(exit_status (main h w) = 0) =
     (fst (check_dependency_conflicts h w1) = Inr True \<and>
      fst (check_critical_versions h w2) = Inr True) \<and>
   (exit_status (main h w) = 0 \<or> exit_status (main h w) = 1) \<and>
   exit_status
     (main (h\<lparr>run := (run h)([''pip'', ''list'', ''--format=json''] := answer),
              json_loads := jl, json_dumps := jd, open_fault := opf, write_fault := wrf\<rparr>) w') =
   exit_status (main h w)"
  by (simp add: main_exit_status check_dependency_conflicts_uniform versions_result
      package_passes_without_report conflict_free_cong)

theorem exit_status_iff_both_checks_witness:
  "exit_status (main (host_of (pip False healthy)) empty_world) = 0 \<and>
   exit_status (main (host_of (pip True healthy)) empty_world) = 1 \<and>
   exit_status (main (host_of (pip False torch_behind)) stale_world) = 1"
proof -
  have a: "fst (check_dependency_conflicts (host_of (pip False healthy)) empty_world) = Inr True"
    by code_simp
  have b: "fst (check_critical_versions (host_of (pip False healthy)) empty_world) = Inr True"
    by code_simp
  have c: "fst (check_dependency_conflicts (host_of (pip True healthy)) empty_world) = Inr False"
    by code_simp
  have d: "fst (check_critical_versions (host_of (pip False torch_behind)) empty_world)
             = Inr False"
    by code_simp
  note good = exit_status_iff_both_checks
    [of "host_of (pip False healthy)" empty_world empty_world empty_world]
  note conflicts = exit_status_iff_both_checks
    [of "host_of (pip True healthy)" empty_world empty_world empty_world]
  note behind = exit_status_iff_both_checks
    [of "host_of (pip False torch_behind)" stale_world empty_world empty_world]
  have one: "exit_status (main (host_of (pip False healthy)) empty_world) = 0"
    using good [THEN conjunct1] a b by simp
  have two: "exit_status (main (host_of (pip True healthy)) empty_world) = 1"
    using conflicts [THEN conjunct1] conflicts [THEN conjunct2, THEN conjunct1] c by simp
  have three: "exit_status (main (host_of (pip False torch_behind)) stale_world) = 1"
    using behind [THEN conjunct1] behind [THEN conjunct2, THEN conjunct1] d by simp
  from one two three show ?thesis
    by simp
qed

text \<open>
  C9. In a run where \<^verbatim>\<open>pip check\<close> finds no conflicts, \<^verbatim>\<open>torch\<close> 1.12.0, \<^verbatim>\<open>numpy\<close> 1.22.0
  and \<^verbatim>\<open>pillow\<close> 9.0.0 are installed and \<^verbatim>\<open>opencv-python\<close> is not, the version check
  returns false, because of \<^verbatim>\<open>opencv-python\<close>, and the exit status is 1.
\<close>

theorem missing_opencv_scenario:
  assumes "conflict_free h"
    and "installed_version h ''torch'' = Some ''1.12.0''"
    and "installed_version h ''numpy'' = Some ''1.22.0''"
    and "not_installed h ''opencv-python''"
    and "installed_version h ''pillow'' = Some ''9.0.0''"
  shows "fst (check_critical_versions h w) = Inr False \<and>
         Print ''opencv-python: NOT INSTALLED''
           \<in> set (added w (snd (check_critical_versions h w))) \<and>
         exit_status (main h w) = 1"
proof -
  have entry: "(''opencv-python'', ''4.5.0'', None) \<in> set critical_packages"
    by (simp add: critical_packages_def)
  note turn = package_not_installed [OF assms(4), of "''4.5.0''" None]
  have one: "fst (check_critical_versions h w) = Inr False"
    using entry turn(1) by (rule failing_package_fails_check)
  have two: "Print ''opencv-python: NOT INSTALLED''
           \<in> set (added w (snd (check_critical_versions h w)))"
    by (rule package_events_added [OF entry]) (simp add: turn)
  from one have "\<not> list_all (package_passes h) critical_packages"
    by (simp add: versions_result)
  then have three: "exit_status (main h w) = 1"
    by (simp add: main_exit_status)
  from one two three show ?thesis
    by blast
qed

theorem missing_opencv_scenario_witness:
  "conflict_free (host_of (pip False no_opencv)) \<and>
   installed_version (host_of (pip False no_opencv)) ''torch'' = Some ''1.12.0'' \<and>
   installed_version (host_of (pip False no_opencv)) ''numpy'' = Some ''1.22.0'' \<and>
   not_installed (host_of (pip False no_opencv)) ''opencv-python'' \<and>
   installed_version (host_of (pip False no_opencv)) ''pillow'' = Some ''9.0.0'' \<and>
   fst (check_critical_versions (host_of (pip False no_opencv)) empty_world) = Inr False \<and>
   exit_status (main (host_of (pip False no_opencv)) empty_world) = 1"
proof -
  have a: "conflict_free (host_of (pip False no_opencv))"
    by code_simp
  have b: "installed_version (host_of (pip False no_opencv)) ''torch'' = Some ''1.12.0''"
    by code_simp
  have c: "installed_version (host_of (pip False no_opencv)) ''numpy'' = Some ''1.22.0''"
    by code_simp
  have d: "not_installed (host_of (pip False no_opencv)) ''opencv-python''"
    by code_simp
  have e: "installed_version (host_of (pip False no_opencv)) ''pillow'' = Some ''9.0.0''"
    by code_simp
  from a b c d e missing_opencv_scenario [OF a b c d e, of empty_world]
  show ?thesis
    by simp
qed


subsection \<open>Numbers read back\<close>

lemma digit_char_cases:
  assumes "d < 10"
  shows "isdigit (digit_char d) \<and> digit_value (digit_char d) = d \<and>
         (0 < d \<longrightarrow> digit_char d \<noteq> CHR ''0'')"
proof -
  from assms have "d = 0 \<or> d = 1 \<or> d = 2 \<or> d = 3 \<or> d = 4 \<or> d = 5 \<or> d = 6 \<or> d = 7
      \<or> d = 8 \<or> d = 9"
    by arith
  then show ?thesis
    by (auto simp: digit_char_def isdigit_def digit_value_def)
qed

lemma int_of_digits_snoc:
  "int_of_digits (xs @ [c]) = 10 * int_of_digits xs + digit_value c"
  by (simp add: int_of_digits_def)

lemma str_nat_digits: "list_all isdigit (str_nat n)"
proof (induction n rule: str_nat.induct)
  case (1 n)
  then show ?case
    by (subst str_nat.simps) (simp add: digit_char_cases)
qed

lemma str_nat_nonempty: "str_nat n \<noteq> []"
  by (subst str_nat.simps) simp

lemma int_of_digits_str_nat: "int_of_digits (str_nat n) = n"
proof (induction n rule: str_nat.induct)
  case (1 n)
  show ?case
  proof (cases "n < 10")
    case True
    then show ?thesis
      by (subst str_nat.simps) (simp add: int_of_digits_def digit_char_cases)
  next
    case False
    with 1 show ?thesis
      by (subst str_nat.simps) (simp add: int_of_digits_snoc digit_char_cases)
  qed
qed

lemma str_nat_hd: "0 < n \<Longrightarrow> hd (str_nat n) \<noteq> CHR ''0''"
proof (induction n rule: str_nat.induct)
  case (1 n)
  show ?case
  proof (cases "n < 10")
    case True
    with 1(2) show ?thesis
      by (subst str_nat.simps) (simp add: digit_char_cases)
  next
    case False
    then have "0 < n div 10"
      by simp
    with 1(1) False have "hd (str_nat (n div 10)) \<noteq> CHR ''0''"
      by simp
    with False show ?thesis
      by (subst str_nat.simps) (simp add: str_nat_nonempty)
  qed
qed

lemma str_nat_leading:
  "\<not> (1 < length (str_nat n) \<and> hd (str_nat n) = CHR ''0'')"
proof (cases "n = 0")
  case True
  then show ?thesis
    by (subst str_nat.simps) simp
next
  case False
  then show ?thesis
    by (simp add: str_nat_hd)
qed

lemma takeWhile_digits:
  assumes "list_all isdigit ds" and "ok_rest r"
  shows "takeWhile isdigit (ds @ r) = ds" and "dropWhile isdigit (ds @ r) = r"
  using assms
  by (induction ds) (auto simp: ok_rest_def split: list.splits)

lemma read_number_nat:
  assumes "ok_rest r"
  shows "read_number (str_nat n @ r) = Some (JInt (int n), r)"
proof -
  have first: "hd (str_nat n @ r) \<noteq> CHR ''-''"
    using str_nat_digits [of n] str_nat_nonempty [of n]
    by (cases "str_nat n") (auto simp: isdigit_def)
  obtain c cs where split: "str_nat n @ r = c # cs"
    using str_nat_nonempty [of n] by (cases "str_nat n @ r") auto
  with first have c: "c \<noteq> CHR ''-''"
    by simp
  note tw = takeWhile_digits [OF str_nat_digits assms, of n]
  from assms have rest: "r \<noteq> [] \<Longrightarrow> hd r \<notin> set ''.eE''"
    by (auto simp: ok_rest_def split: list.splits)
  show ?thesis
    unfolding read_number_def split list.case
    using c tw [unfolded split] rest str_nat_leading [of n] str_nat_nonempty [of n]
    by (auto simp: int_of_digits_str_nat Let_def)
qed

lemma read_number_int:
  assumes "ok_rest r"
  shows "read_number (str_int i @ r) = Some (JInt i, r)"
proof (cases "i < 0")
  case False
  with read_number_nat [OF assms, of "nat i"] show ?thesis
    by (simp add: str_int_def)
next
  case True
  obtain c cs where split: "str_nat (nat (- i)) @ r = c # cs"
    using str_nat_nonempty [of "nat (- i)"] by (cases "str_nat (nat (- i)) @ r") auto
  note tw = takeWhile_digits [OF str_nat_digits assms, of "nat (- i)"]
  from assms have rest: "r \<noteq> [] \<Longrightarrow> hd r \<notin> set ''.eE''"
    by (auto simp: ok_rest_def split: list.splits)
  from True show ?thesis
    unfolding read_number_def str_int_def
    using tw rest str_nat_leading [of "nat (- i)"] str_nat_nonempty [of "nat (- i)"]
    by (auto simp: int_of_digits_str_nat Let_def)
qed

lemma str_int_first:
  "\<exists>c cs. str_int i = c # cs \<and> (isdigit c \<or> c = CHR ''-'')"
proof (cases "i < 0")
  case True
  then show ?thesis
    by (simp add: str_int_def)
next
  case False
  then show ?thesis
    using str_nat_digits [of "nat i"] str_nat_nonempty [of "nat i"]
    by (cases "str_nat (nat i)") (auto simp: str_int_def)
qed

subsection \<open>Strings read back\<close>

lemma read_string_plain:
  assumes "list_all plain_char s"
  shows "read_string (s @ CHR 0x22 # r) = Some (s, r)"
  using assms by (induction s) (auto simp: plain_char_def)

lemma read_string_gives_plain:
  "read_string s = Some (k, r) \<Longrightarrow> list_all plain_char k"
proof (induction s arbitrary: k r)
  case Nil
  then show ?case by simp
next
  case (Cons c cs)
  then show ?case
    by (auto simp: plain_char_def split: if_splits)
qed

subsection \<open>White space\<close>

lemma dropWhile_ws:
  assumes "list_all json_ws ws" and "\<not> json_ws c"
  shows "dropWhile json_ws (ws @ c # r) = c # r"
  using assms by (induction ws) auto

lemma newline_indent_ws: "list_all json_ws (newline_indent level)"
  by (simp add: newline_indent_def json_ws_def list_all_iff)

lemma ok_rest_ws:
  assumes "list_all json_ws ws" and "\<not> isdigit c" and "c \<notin> set ''.eE''"
  shows "ok_rest (ws @ c # r)"
  using assms by (cases ws) (auto simp: ok_rest_def json_ws_def isdigit_def)

subsection \<open>Values read back\<close>

lemma fragment_dump_first:
  assumes "plain v"
  shows "\<exists>c cs. fragment_dump level v = c # cs \<and> \<not> json_ws c \<and> c \<noteq> CHR '']'' \<and> c \<noteq> CHR ''}''"
proof (cases v)
  case (JInt i)
  with str_int_first [of i] show ?thesis
    by (auto simp: json_ws_def isdigit_def)
next
  case (JFloat x)
  with assms show ?thesis
    by simp
qed (auto simp: json_ws_def quote_def)

lemma read_items_join:
  assumes elem: "\<And>v level n r ws. v \<in> set vs \<Longrightarrow> ok_rest r \<Longrightarrow> need v \<le> n \<Longrightarrow>
                   list_all json_ws ws \<Longrightarrow>
                   read_value n (ws @ fragment_dump level v @ r) = Some (v, r)"
    and "vs \<noteq> []" and "list_all json_ws ws" and "list_all json_ws ws'"
    and "list_all json_ws ws2" and "length vs + sum_list (map need vs) \<le> n"
  shows "read_items n (ws @ join (CHR '','' # ws') (map (fragment_dump level) vs)
                         @ ws2 @ CHR '']'' # r) = Some (vs, r)"
  using assms
proof (induction vs arbitrary: n ws)
  case Nil
  then show ?case by simp
next
  case (Cons v vs)
  from Cons.prems(6) obtain n' where n: "n = Suc n'" and fuel: "need v \<le> n'"
    and more: "length vs + sum_list (map need vs) \<le> n'"
    by (cases n) auto
  show ?case
  proof (cases vs)
    case Nil
    let ?rest = "ws2 @ CHR '']'' # r"
    have "ok_rest ?rest"
      using Cons.prems(5) by (rule ok_rest_ws) (simp_all add: isdigit_def)
    then have "read_value n' (ws @ fragment_dump level v @ ?rest) = Some (v, ?rest)"
      using fuel Cons.prems(3) by (intro Cons.prems(1)) simp_all
    moreover have "dropWhile json_ws ?rest = CHR '']'' # r"
      using Cons.prems(5) by (rule dropWhile_ws) (simp add: json_ws_def)
    ultimately show ?thesis
      by (simp add: n Nil)
  next
    case (Cons v' vs')
    let ?tail = "ws' @ join (CHR '','' # ws') (map (fragment_dump level) vs)
                   @ ws2 @ CHR '']'' # r"
    let ?rest = "CHR '','' # ?tail"
    have "ok_rest ?rest"
      by (simp add: ok_rest_def isdigit_def)
    then have "read_value n' (ws @ fragment_dump level v @ ?rest) = Some (v, ?rest)"
      using fuel Cons.prems(3) by (intro Cons.prems(1)) simp_all
    moreover have "dropWhile json_ws ?rest = ?rest"
      by (simp add: json_ws_def)
    moreover have "read_items n' ?tail = Some (vs, r)"
      using Cons.prems(1,4,5) more
      by (intro Cons.IH) (simp_all add: Cons)
    ultimately show ?thesis
      by (simp add: n Cons)
  qed
qed

lemma read_members_join:
  assumes elem: "\<And>v level n r ws. v \<in> snd ` set kvs \<Longrightarrow> ok_rest r \<Longrightarrow> need v \<le> n \<Longrightarrow>
                   list_all json_ws ws \<Longrightarrow>
                   read_value n (ws @ fragment_dump level v @ r) = Some (v, r)"
    and "kvs \<noteq> []" and "list_all json_ws ws" and "list_all json_ws ws'"
    and "list_all json_ws ws2"
    and "length kvs + sum_list (map (\<lambda>(k, v). need v) kvs) \<le> n"
    and "list_all (\<lambda>(k, v). list_all plain_char k) kvs"
  shows "read_members n
           (ws @ join (CHR '','' # ws')
                   (map (\<lambda>(k, v). quote k @ '': '' @ fragment_dump level v) kvs)
               @ ws2 @ CHR ''}'' # r) = Some (kvs, r)"
  using assms
proof (induction kvs arbitrary: n ws)
  case Nil
  then show ?case by simp
next
  case (Cons kv kvs)
  obtain k v where kv: "kv = (k, v)"
    by (cases kv) auto
  from Cons.prems(6) obtain n' where n: "n = Suc n'" and fuel: "need v \<le> n'"
    and more: "length kvs + sum_list (map (\<lambda>(k, v). need v) kvs) \<le> n'"
    by (cases n) (auto simp: kv)
  from Cons.prems(7) have key: "list_all plain_char k"
    and keys: "list_all (\<lambda>(k, v). list_all plain_char k) kvs"
    by (simp_all add: kv)
  have start: "dropWhile json_ws (ws @ CHR 0x22 # s) = CHR 0x22 # s" for s
    using Cons.prems(3) by (rule dropWhile_ws) (simp add: json_ws_def)
  have colon: "\<not> json_ws CHR '':''"
    by (simp add: json_ws_def)
  have blank: "list_all json_ws '' ''"
    by (simp add: json_ws_def)
  show ?case
  proof (cases kvs)
    case Nil
    let ?rest = "ws2 @ CHR ''}'' # r"
    have "ok_rest ?rest"
      using Cons.prems(5) by (rule ok_rest_ws) (simp_all add: isdigit_def)
    then have "read_value n' ('' '' @ fragment_dump level v @ ?rest) = Some (v, ?rest)"
      using fuel blank by (intro Cons.prems(1)) (simp_all add: kv)
    moreover have "dropWhile json_ws ?rest = CHR ''}'' # r"
      using Cons.prems(5) by (rule dropWhile_ws) (simp add: json_ws_def)
    ultimately show ?thesis
      using read_string_plain [OF key]
      by (simp add: n Nil kv quote_def start colon)
  next
    case (Cons kv' kvs')
    let ?tail = "ws' @ join (CHR '','' # ws')
                   (map (\<lambda>(k, v). quote k @ '': '' @ fragment_dump level v) kvs)
                   @ ws2 @ CHR ''}'' # r"
    let ?rest = "CHR '','' # ?tail"
    have "ok_rest ?rest"
      by (simp add: ok_rest_def isdigit_def)
    then have "read_value n' ('' '' @ fragment_dump level v @ ?rest) = Some (v, ?rest)"
      using fuel blank by (intro Cons.prems(1)) (simp_all add: kv)
    moreover have "dropWhile json_ws ?rest = ?rest"
      by (simp add: json_ws_def)
    moreover have "read_members n' ?tail = Some (kvs, r)"
      using Cons.prems(4,5) more keys
      by (intro Cons.IH Cons.prems(1)) (simp_all add: Cons)
    ultimately show ?thesis
      using read_string_plain [OF key]
      by (simp add: n Cons kv quote_def start colon)
  qed
qed

lemma read_value_dump:
  assumes "plain v" and "ok_rest r" and "need v \<le> n" and "list_all json_ws ws"
  shows "read_value n (ws @ fragment_dump level v @ r) = Some (v, r)"
  using assms
proof (induction v arbitrary: level n r ws)
  case JNull
  then obtain n' where n: "n = Suc n'"
    by (cases n) auto
  have "dropWhile json_ws (ws @ CHR ''n'' # ''ull'' @ r) = CHR ''n'' # ''ull'' @ r"
    using JNull.prems(4) by (rule dropWhile_ws) (simp add: json_ws_def)
  then show ?case
    by (simp add: n startswith_def)
next
  case (JBool b)
  then obtain n' where n: "n = Suc n'"
    by (cases n) auto
  have "dropWhile json_ws (ws @ CHR ''t'' # ''rue'' @ r) = CHR ''t'' # ''rue'' @ r"
    using JBool.prems(4) by (rule dropWhile_ws) (simp add: json_ws_def)
  moreover
  have "dropWhile json_ws (ws @ CHR ''f'' # ''alse'' @ r) = CHR ''f'' # ''alse'' @ r"
    using JBool.prems(4) by (rule dropWhile_ws) (simp add: json_ws_def)
  ultimately show ?case
    by (cases b) (simp_all add: n startswith_def)
next
  case (JInt i)
  then obtain n' where n: "n = Suc n'"
    by (cases n) auto
  from str_int_first [of i] obtain c cs where first: "str_int i = c # cs"
    and c: "isdigit c \<or> c = CHR ''-''"
    by blast
  from c have nows: "\<not> json_ws c"
    by (auto simp: json_ws_def isdigit_def)
  have skip: "dropWhile json_ws (ws @ c # cs @ r) = c # cs @ r"
    using JInt.prems(4) nows by (rule dropWhile_ws)
  from c have other: "c \<noteq> CHR ''['' \<and> c \<noteq> CHR ''{'' \<and> c \<noteq> CHR 0x22 \<and> c \<noteq> CHR ''t''
      \<and> c \<noteq> CHR ''f'' \<and> c \<noteq> CHR ''n''"
    by (auto simp: isdigit_def)
  from read_number_int [OF JInt.prems(2), of i]
  have "read_number (c # cs @ r) = Some (JInt i, r)"
    by (simp add: first)
  with skip other show ?case
    by (simp add: n first startswith_def)
next
  case (JFloat x)
  then show ?case by simp
next
  case (JStr s)
  then obtain n' where n: "n = Suc n'"
    by (cases n) auto
  have "dropWhile json_ws (ws @ CHR 0x22 # s @ CHR 0x22 # r) = CHR 0x22 # s @ CHR 0x22 # r"
    using JStr.prems(4) by (rule dropWhile_ws) (simp add: json_ws_def)
  moreover from JStr.prems(1) have "read_string (s @ CHR 0x22 # r) = Some (s, r)"
    by (simp add: read_string_plain)
  ultimately show ?case
    by (simp add: n quote_def)
next
  case (JArr xs)
  from JArr.prems(3) obtain n' where n: "n = Suc n'"
    and fuel: "length xs + sum_list (map need xs) \<le> n'"
    by (cases n) auto
  show ?case
  proof (cases "xs = []")
    case True
    have "dropWhile json_ws (ws @ CHR ''['' # CHR '']'' # r) = CHR ''['' # CHR '']'' # r"
      using JArr.prems(4) by (rule dropWhile_ws) (simp add: json_ws_def)
    moreover have "dropWhile json_ws (CHR '']'' # r) = CHR '']'' # r"
      by (simp add: json_ws_def)
    ultimately show ?thesis
      by (simp add: n True)
  next
    case False
    let ?sep = "CHR '','' # newline_indent (Suc level)"
    let ?body = "newline_indent (Suc level)
                   @ join ?sep (map (fragment_dump (Suc level)) xs)
                   @ newline_indent level @ CHR '']'' # r"
    from False obtain x xs' where xs: "xs = x # xs'"
      by (cases xs) auto
    from JArr.prems(1) have px: "plain x"
      by (simp add: xs)
    from fragment_dump_first [OF px, of "Suc level"] obtain c cs
      where first: "fragment_dump (Suc level) x = c # cs"
        and c: "\<not> json_ws c" "c \<noteq> CHR '']''"
      by blast
    have "\<exists>t. join ?sep (map (fragment_dump (Suc level)) xs) = c # t"
      by (cases xs') (simp_all add: xs first)
    then obtain t where "join ?sep (map (fragment_dump (Suc level)) xs) = c # t"
      by blast
    then have peek: "dropWhile json_ws ?body = c # t @ newline_indent level @ CHR '']'' # r"
      using dropWhile_ws [OF newline_indent_ws c(1), of "Suc level"] by simp
    have items: "read_items n' ?body = Some (xs, r)"
    proof (rule read_items_join [OF _ False newline_indent_ws newline_indent_ws
          newline_indent_ws fuel])
      fix v lv m s ws
      assume "v \<in> set xs" and "ok_rest s" and "need v \<le> m" and "list_all json_ws ws"
      with JArr.prems(1) show "read_value m (ws @ fragment_dump lv v @ s) = Some (v, s)"
        by (intro JArr.IH) (simp_all add: list_all_iff)
    qed
    have "dropWhile json_ws (ws @ CHR ''['' # ?body) = CHR ''['' # ?body"
      using JArr.prems(4) by (rule dropWhile_ws) (simp add: json_ws_def)
    with peek c(2) items show ?thesis
      by (simp add: n False)
  qed
next
  case (JObj kvs)
  from JObj.prems(3) obtain n' where n: "n = Suc n'"
    and fuel: "length kvs + sum_list (map (\<lambda>(k, v). need v) kvs) \<le> n'"
    by (cases n) auto
  show ?case
  proof (cases "kvs = []")
    case True
    have "dropWhile json_ws (ws @ CHR ''{'' # CHR ''}'' # r) = CHR ''{'' # CHR ''}'' # r"
      using JObj.prems(4) by (rule dropWhile_ws) (simp add: json_ws_def)
    moreover have "dropWhile json_ws (CHR ''}'' # r) = CHR ''}'' # r"
      by (simp add: json_ws_def)
    ultimately show ?thesis
      by (simp add: n True)
  next
    case False
    let ?sep = "CHR '','' # newline_indent (Suc level)"
    let ?elem = "\<lambda>(k, v). quote k @ '': '' @ fragment_dump (Suc level) v"
    let ?body = "newline_indent (Suc level) @ join ?sep (map ?elem kvs)
                   @ newline_indent level @ CHR ''}'' # r"
    from False obtain k x kvs' where kvs: "kvs = (k, x) # kvs'"
      by (cases kvs) auto
    have "\<exists>t. join ?sep (map ?elem kvs) = CHR 0x22 # t"
      by (cases kvs') (simp_all add: kvs quote_def)
    then obtain t where "join ?sep (map ?elem kvs) = CHR 0x22 # t"
      by blast
    moreover have "\<not> json_ws CHR 0x22"
      by (simp add: json_ws_def)
    ultimately have peek:
      "dropWhile json_ws ?body = CHR 0x22 # t @ newline_indent level @ CHR ''}'' # r"
      using dropWhile_ws [OF newline_indent_ws, of "CHR 0x22" "Suc level"] by simp
    from JObj.prems(1) have keys: "list_all (\<lambda>(k, v). list_all plain_char k) kvs"
      by (auto simp: list_all_iff)
    have members: "read_members n' ?body = Some (kvs, r)"
    proof (rule read_members_join [OF _ False newline_indent_ws newline_indent_ws
          newline_indent_ws fuel keys])
      fix v lv m s ws
      assume mem: "v \<in> snd ` set kvs" and rest: "ok_rest s" and fuel': "need v \<le> m"
        and white: "list_all json_ws ws"
      from mem obtain k where kv: "(k, v) \<in> set kvs"
        by auto
      with JObj.prems(1) have pv: "plain v"
        by (auto simp: list_all_iff)
      have "v \<in> Basic_BNFs.snds (k, v)"
        by simp
      with kv show "read_value m (ws @ fragment_dump lv v @ s) = Some (v, s)"
        using pv rest fuel' white by (rule JObj.IH)
    qed
    have "dropWhile json_ws (ws @ CHR ''{'' # ?body) = CHR ''{'' # ?body"
      using JObj.prems(4) by (rule dropWhile_ws) (simp add: json_ws_def)
    with peek members show ?thesis
      by (simp add: n False)
  qed
qed

subsection \<open>What the reader returns\<close>

lemma read_number_plain: "read_number s = Some (v, r) \<Longrightarrow> plain v"
  by (auto simp: read_number_def Let_def split: if_splits prod.splits)

lemma reader_plain:
  "(\<forall>s v r. read_value n s = Some (v, r) \<longrightarrow> plain v) \<and>
   (\<forall>s vs r. read_items n s = Some (vs, r) \<longrightarrow> list_all plain vs) \<and>
   (\<forall>s kvs r. read_members n s = Some (kvs, r) \<longrightarrow>
      list_all (\<lambda>(k, v). list_all plain_char k \<and> plain v) kvs)"
proof (induction n)
  case 0
  show ?case by simp
next
  case (Suc n)
  from Suc have ihv: "\<And>s v r. read_value n s = Some (v, r) \<Longrightarrow> plain v"
    by blast
  from Suc have ihi: "\<And>s vs r. read_items n s = Some (vs, r) \<Longrightarrow> list_all plain vs"
    by blast
  from Suc have ihm: "\<And>s kvs r. read_members n s = Some (kvs, r) \<Longrightarrow>
      list_all (\<lambda>(k, v). list_all plain_char k \<and> plain v) kvs"
    by blast
  have one: "plain v" if "read_value (Suc n) s = Some (v, r)" for s v r
    using that
    by (auto simp: read_number_plain read_string_gives_plain dest: ihi ihm
        split: list.splits if_splits prod.splits)
  have two: "list_all plain vs" if "read_items (Suc n) s = Some (vs, r)" for s vs r
    using that
    by (auto dest: ihv ihi split: option.splits list.splits if_splits prod.splits)
  have three: "list_all (\<lambda>(k, v). list_all plain_char k \<and> plain v) kvs"
    if "read_members (Suc n) s = Some (kvs, r)" for s kvs r
    using that
    by (auto simp: read_string_gives_plain dest: ihv ihm
        split: option.splits list.splits if_splits prod.splits)
  from one two three show ?case
    by blast
qed

lemma fragment_loads_plain:
  assumes "fragment_loads s = Inr v"
  shows "plain v"
proof -
  from assms obtain r where "read_value (2 * length s + 2) s = Some (v, r)"
    by (cases "read_value (2 * length s + 2) s")
      (auto simp: fragment_loads_def simp del: read_value.simps split: if_splits)
  with reader_plain [of "2 * length s + 2"] show ?thesis
    by blast
qed

subsection \<open>The depth that is enough\<close>

lemma join_length:
  assumes "sep \<noteq> []"
  shows "sum_list (map length xs) + length xs \<le> Suc (length (join sep xs))"
  using assms
proof (induction sep xs rule: join.induct)
  case (3 sep x y ys)
  then have "1 \<le> length sep"
    by (cases sep) auto
  with 3 show ?case
    by simp
qed simp_all

lemma str_int_nonempty: "str_int i \<noteq> []"
  by (simp add: str_int_def str_nat_nonempty)

lemma need_bound:
  assumes "plain v"
  shows "need v \<le> 2 * length (fragment_dump level v)"
  using assms
proof (induction v arbitrary: level)
  case (JInt i)
  from str_int_nonempty [of i] have "1 \<le> length (str_int i)"
    by (cases "str_int i") auto
  then show ?case
    by simp
next
  case (JArr xs)
  show ?case
  proof (cases "xs = []")
    case True
    then show ?thesis by simp
  next
    case False
    let ?sep = "'','' @ newline_indent (Suc level)"
    have each: "need x \<le> 2 * length (fragment_dump (Suc level) x)" if "x \<in> set xs" for x
      using that JArr.prems by (intro JArr.IH) (simp_all add: list_all_iff)
    have "sum_list (map need xs)
        \<le> sum_list (map (\<lambda>x. 2 * length (fragment_dump (Suc level) x)) xs)"
      by (rule sum_list_mono) (rule each)
    also have "\<dots> = 2 * sum_list (map length (map (fragment_dump (Suc level)) xs))"
      by (simp add: sum_list_const_mult comp_def)
    finally have sum: "sum_list (map need xs)
        \<le> 2 * sum_list (map length (map (fragment_dump (Suc level)) xs))" .
    have "sum_list (map length (map (fragment_dump (Suc level)) xs))
            + length (map (fragment_dump (Suc level)) xs)
          \<le> Suc (length (join ?sep (map (fragment_dump (Suc level)) xs)))"
      by (rule join_length) simp
    with sum False show ?thesis
      by (simp add: newline_indent_def)
  qed
next
  case (JObj kvs)
  show ?case
  proof (cases "kvs = []")
    case True
    then show ?thesis by simp
  next
    case False
    let ?sep = "'','' @ newline_indent (Suc level)"
    let ?elem = "\<lambda>(k, v). quote k @ '': '' @ fragment_dump (Suc level) v"
    have each: "(case kv of (k, v) \<Rightarrow> need v) \<le> 2 * length (?elem kv)"
      if "kv \<in> set kvs" for kv
    proof -
      obtain k v where kv: "kv = (k, v)"
        by (cases kv) auto
      from that JObj.prems have "plain v"
        by (auto simp: kv list_all_iff)
      moreover have "v \<in> Basic_BNFs.snds (k, v)"
        by simp
      ultimately have "need v \<le> 2 * length (fragment_dump (Suc level) v)"
        using that by (intro JObj.IH [of "(k, v)"]) (simp_all add: kv)
      then show ?thesis
        by (simp add: kv)
    qed
    have "sum_list (map (\<lambda>(k, v). need v) kvs)
        \<le> sum_list (map (\<lambda>kv. 2 * length (?elem kv)) kvs)"
      by (rule sum_list_mono) (rule each)
    also have "\<dots> = 2 * sum_list (map length (map ?elem kvs))"
      by (simp add: sum_list_const_mult comp_def)
    finally have sum: "sum_list (map (\<lambda>(k, v). need v) kvs)
        \<le> 2 * sum_list (map length (map ?elem kvs))" .
    have "sum_list (map length (map ?elem kvs)) + length (map ?elem kvs)
          \<le> Suc (length (join ?sep (map ?elem kvs)))"
      by (rule join_length) simp
    with sum False show ?thesis
      by (simp add: newline_indent_def)
  qed
qed (simp_all add: quote_def)

subsection \<open>The round trip\<close>

lemma fragment_round_trip:
  assumes "plain v"
  shows "fragment_loads (fragment_dump 0 v) = Inr v"
proof -
  have "ok_rest []"
    by (simp add: ok_rest_def)
  moreover from need_bound [OF assms, of 0]
  have "need v \<le> 2 * length (fragment_dump 0 v) + 2"
    by simp
  ultimately have "read_value (2 * length (fragment_dump 0 v) + 2) ([] @ fragment_dump 0 v @ [])
      = Some (v, [])"
    using assms by (intro read_value_dump) simp_all
  then show ?thesis
    by (simp add: fragment_loads_def del: read_value.simps)
qed

lemma fragment_reads_back_what_it_read:
  assumes "fragment_loads s = Inr v"
  shows "fragment_loads (fragment_dump 0 v) = Inr v"
  using assms by (intro fragment_round_trip fragment_loads_plain)

text \<open>
  C8, as stated, fails: on a machine where \<^verbatim>\<open>pip list\<close> cannot be run, report generation
  prints the error and returns, and no report file is written.
\<close>

theorem report_not_written_without_pip:
  "files (snd (generate_dependency_report (host_of no_pip) empty_world))
     ''dependency_report.json'' = None \<and>
   files (snd (main (host_of no_pip) empty_world)) ''dependency_report.json'' = None \<and>
   printed (added empty_world (snd (generate_dependency_report (host_of no_pip) empty_world))) =
     [CHR 0x0A # ''Generating dependency report...'',
      ''Error generating report: [Errno 2] No such file or directory: '' @ [CHR 0x27]
        @ ''pip'' @ [CHR 0x27]]"
proof -
  have listing: "run (host_of no_pip) [''pip'', ''list'', ''--format=json''] =
     Inl (Exception (''[Errno 2] No such file or directory: '' @ [CHR 0x27] @ ''pip''
                       @ [CHR 0x27]))"
    by code_simp
  note gen = generate_dependency_report_without_listing [OF listing]
  have one: "files (snd (generate_dependency_report (host_of no_pip) empty_world))
     ''dependency_report.json'' = None"
    by (simp add: gen) (simp add: empty_world_def)
  have two: "files (snd (main (host_of no_pip) empty_world)) ''dependency_report.json'' = None"
    by (simp add: main_files gen check_critical_versions_uniform
        check_dependency_conflicts_uniform) (simp add: empty_world_def)
  have three: "printed (added empty_world
        (snd (generate_dependency_report (host_of no_pip) empty_world))) =
     [CHR 0x0A # ''Generating dependency report...'',
      ''Error generating report: [Errno 2] No such file or directory: '' @ [CHR 0x27]
        @ ''pip'' @ [CHR 0x27]]"
    by (simp add: gen)
  from one two three show ?thesis
    by blast
qed

text \<open>
  C8, amended. Whenever \<^verbatim>\<open>pip list\<close> runs, its output parses as a JSON list and the report
  file can be opened and written, a run of the script leaves in \<^verbatim>\<open>dependency_report.json\<close>
  a text that parses back into that list, whose length is the number of installed
  packages the run prints. This holds whatever the file held before and whatever the two
  checks return. The JSON library is the one of the fragment above: that its reader
  reads back what its writer writes is proved, not assumed.
\<close>

theorem report_written_when_listing_succeeds:
  fixes h :: "('v, string) host"
  assumes "run h [''pip'', ''list'', ''--format=json''] = Inr result"
    and "fragment_loads (stdout result) = Inr (JArr packages)"
    and "open_fault h ''dependency_report.json'' = None"
    and "write_fault h ''dependency_report.json'' = None"
  shows "\<exists>content.
           files (snd (main (h\<lparr>json_loads := fragment_loads, json_dumps := fragment_dump 0\<rparr>) w))
             ''dependency_report.json'' = Some content \<and>
           files (snd (generate_dependency_report
                    (h\<lparr>json_loads := fragment_loads, json_dumps := fragment_dump 0\<rparr>) w'))
             ''dependency_report.json'' = Some content \<and>
           fragment_loads content = Inr (JArr packages) \<and>
           Print (''Total packages installed: '' @ str_nat (length packages))
             \<in> set (added w' (snd (generate_dependency_report
                    (h\<lparr>json_loads := fragment_loads, json_dumps := fragment_dump 0\<rparr>) w')))"
proof -
  let ?h = "h\<lparr>json_loads := fragment_loads, json_dumps := fragment_dump 0\<rparr>"
  have listing: "run ?h [''pip'', ''list'', ''--format=json''] = Inr result"
    using assms(1) by simp
  have parsed: "json_loads ?h (stdout result) = Inr (JArr packages)"
    using assms(2) by simp
  have opened: "open_fault ?h ''dependency_report.json'' = None"
    using assms(3) by simp
  have written: "write_fault ?h ''dependency_report.json'' = None"
    using assms(4) by simp
  note gen = generate_dependency_report_writes [OF listing parsed opened written]
  have one: "files (snd (main ?h w)) ''dependency_report.json''
      = Some (fragment_dump 0 (JArr packages))"
    by (simp add: main_files gen)
  have two: "files (snd (generate_dependency_report ?h w')) ''dependency_report.json''
      = Some (fragment_dump 0 (JArr packages))"
    by (simp add: gen)
  have three: "Print (''Total packages installed: '' @ str_nat (length packages))
             \<in> set (added w' (snd (generate_dependency_report ?h w')))"
    by (simp add: gen added_def)
  have four: "fragment_loads (fragment_dump 0 (JArr packages)) = Inr (JArr packages)"
    using assms(2) by (rule fragment_reads_back_what_it_read)
  from one two three four show ?thesis
    by blast
qed

theorem report_written_when_listing_succeeds_witness:
  "run (host_of (pip True torch_behind)) [''pip'', ''list'', ''--format=json'']
     = Inr \<lparr>returncode = 0, stdout = list_output torch_behind\<rparr> \<and>
   fragment_loads (list_output torch_behind) = Inr (JArr (records_of torch_behind)) \<and>
   length (records_of torch_behind) = 4 \<and>
   exit_status (main (host_of (pip True torch_behind)) stale_world) = 1 \<and>
   (\<exists>content.
      files (snd (main (host_of (pip True torch_behind)) stale_world))
        ''dependency_report.json'' = Some content \<and>
      fragment_loads content = Inr (JArr (records_of torch_behind)))"
proof -
  let ?h = "host_of (pip True torch_behind)"
  have same: "?h\<lparr>json_loads := fragment_loads, json_dumps := fragment_dump 0\<rparr> = ?h"
    by (simp add: host_of_def)
  have a: "run ?h [''pip'', ''list'', ''--format=json'']
     = Inr \<lparr>returncode = 0, stdout = list_output torch_behind\<rparr>"
    by code_simp
  have b: "fragment_loads (stdout \<lparr>returncode = 0, stdout = list_output torch_behind\<rparr>)
     = Inr (JArr (records_of torch_behind))"
    by code_simp
  have c: "open_fault ?h ''dependency_report.json'' = None"
    by code_simp
  have d: "write_fault ?h ''dependency_report.json'' = None"
    by code_simp
  have f: "length (records_of torch_behind) = 4"
    by code_simp
  have "\<not> conflict_free ?h"
    by code_simp
  then have g: "exit_status (main ?h stale_world) = 1"
    by (simp add: main_exit_status)
  from b have b': "fragment_loads (list_output torch_behind) = Inr (JArr (records_of torch_behind))"
    by simp
  from report_written_when_listing_succeeds [OF a b c d, of stale_world stale_world]
  obtain content where
    "files (snd (main ?h stale_world)) ''dependency_report.json'' = Some content"
    and "fragment_loads content = Inr (JArr (records_of torch_behind))"
    unfolding same by blast
  then have h: "\<exists>content.
      files (snd (main ?h stale_world)) ''dependency_report.json'' = Some content \<and>
      fragment_loads content = Inr (JArr (records_of torch_behind))"
    by blast
  from a b' f g h show ?thesis
    by blast
qed

end
